theory Spec2Isabelle
  imports Main "HOL-Library.Sublist"
begin

section \<open>Strings as Python sees them\<close>

text \<open>
  A Python \<open>str\<close> is a sequence of code points. The model uses \<open>string\<close>, reading a
  \<open>char\<close> as a code point below 256; \<open>str.lower\<close>, \<open>str.strip\<close>, \<open>str.splitlines\<close>
  and the regex category \<open>\s\<close> are Python's, restricted to that range. The character
  classes of the two regular expressions of \<open>app.py\<close> are ASCII ranges, so a code point
  outside them behaves like any other character outside the class.
\<close>

definition code :: "char \<Rightarrow> nat" where
  "code c = of_char c"

definition is_space :: "char \<Rightarrow> bool" where
  \<comment> \<open>\<open>str.isspace\<close> on one code point: 9-13, 28-31, 32, 0x85, 0xA0.\<close>
  "is_space c = (let n = code c in
     (9 \<le> n \<and> n \<le> 13) \<or> (28 \<le> n \<and> n \<le> 32) \<or> n = 133 \<or> n = 160)"

definition lower_char :: "char \<Rightarrow> char" where
  \<comment> \<open>\<open>str.lower\<close> on one code point: A-Z, and the Latin-1 capitals 0xC0-0xDE except 0xD7.\<close>
  "lower_char c = (let n = code c in
     if (65 \<le> n \<and> n \<le> 90) \<or> (192 \<le> n \<and> n \<le> 222 \<and> n \<noteq> 215)
     then char_of (n + 32) else c)"

definition lower :: "string \<Rightarrow> string" where
  "lower s = map lower_char s"

definition lstrip :: "string \<Rightarrow> string" where
  "lstrip s = dropWhile is_space s"

definition rstrip :: "string \<Rightarrow> string" where
  "rstrip s = rev (dropWhile is_space (rev s))"

definition strip :: "string \<Rightarrow> string" where
  "strip s = rstrip (lstrip s)"

section \<open>The regular expressions of \<open>app.py\<close>\<close>

text \<open>
  \<open>is_valid_email\<close> is \<open>re.match(r"^[A-Za-z0-9._%+-]+@[A-Za-z0-9.-]+\.[A-Za-z]{2,}$", s or "")
  is not None\<close>. The pattern is kept as data, in the shape Python's parser gives it, and
  run by a backtracking matcher with Python's meaning of each node: \<open>^\<close> matches at
  position 0, \<open>$\<close> (no MULTILINE flag) matches at the end of the string and also just
  before a newline that is the last character, a greedy repeat tries to take one more
  character before it tries the rest of the pattern.
\<close>

datatype atom = Lit char | Range char char | Category_Space

fun in_atom :: "char \<Rightarrow> atom \<Rightarrow> bool" where
  "in_atom c (Lit d) = (c = d)"
| "in_atom c (Range lo hi) = (code lo \<le> code c \<and> code c \<le> code hi)"
| "in_atom c Category_Space = is_space c"

definition in_class :: "atom list \<Rightarrow> char \<Rightarrow> bool" where
  "in_class cls c = list_ex (in_atom c) cls"

datatype re_node =
    At_Beginning
  | At_End
  | Literal char
  | Max_Repeat nat "atom list"   \<comment> \<open>at least so many characters of the class, greedy, no upper bound\<close>

fun re_match_from :: "re_node list \<Rightarrow> nat \<Rightarrow> string \<Rightarrow> bool" where
  "re_match_from [] pos s = True"
| "re_match_from (At_Beginning # p) pos s = (pos = 0 \<and> re_match_from p pos s)"
| "re_match_from (At_End # p) pos s = ((s = [] \<or> s = [CHR 0x0A]) \<and> re_match_from p pos s)"
| "re_match_from (Literal c # p) pos [] = False"
| "re_match_from (Literal c # p) pos (x # xs) = (x = c \<and> re_match_from p (Suc pos) xs)"
| "re_match_from (Max_Repeat (Suc n) cls # p) pos [] = False"
| "re_match_from (Max_Repeat (Suc n) cls # p) pos (x # xs) =
     (in_class cls x \<and> re_match_from (Max_Repeat n cls # p) (Suc pos) xs)"
| "re_match_from (Max_Repeat 0 cls # p) pos [] = re_match_from p pos []"
| "re_match_from (Max_Repeat 0 cls # p) pos (x # xs) =
     ((in_class cls x \<and> re_match_from (Max_Repeat 0 cls # p) (Suc pos) xs)
      \<or> re_match_from p pos (x # xs))"

definition re_match :: "re_node list \<Rightarrow> string \<Rightarrow> bool" where
  \<comment> \<open>\<open>re.match(p, s) is not None\<close>\<close>
  "re_match p s = re_match_from p 0 s"

definition local_class :: "atom list" where
  \<comment> \<open>\<open>[A-Za-z0-9._%+-]\<close>\<close>
  "local_class = [Range CHR ''A'' CHR ''Z'', Range CHR ''a'' CHR ''z'', Range CHR ''0'' CHR ''9'',
     Lit CHR ''.'', Lit CHR ''_'', Lit CHR ''%'', Lit CHR ''+'', Lit CHR ''-'']"

definition domain_class :: "atom list" where
  \<comment> \<open>\<open>[A-Za-z0-9.-]\<close>\<close>
  "domain_class = [Range CHR ''A'' CHR ''Z'', Range CHR ''a'' CHR ''z'', Range CHR ''0'' CHR ''9'',
     Lit CHR ''.'', Lit CHR ''-'']"

definition letter_class :: "atom list" where
  \<comment> \<open>\<open>[A-Za-z]\<close>\<close>
  "letter_class = [Range CHR ''A'' CHR ''Z'', Range CHR ''a'' CHR ''z'']"

definition email_pattern :: "re_node list" where
  "email_pattern =
     [At_Beginning, Max_Repeat 1 local_class, Literal CHR ''@'', Max_Repeat 1 domain_class,
      Literal CHR ''.'', Max_Repeat 2 letter_class, At_End]"

definition is_valid_email :: "string \<Rightarrow> bool" where
  \<comment> \<open>The argument is a \<open>str\<close> at every call, so \<open>s or ""\<close> is \<open>s\<close>.\<close>
  "is_valid_email s = re_match email_pattern s"

text \<open>
  The shape the specification gives in words: one or more of letters, digits and
  \<open>._%+-\<close>, an \<open>@\<close>, one or more of letters, digits, \<open>.\<close> and \<open>-\<close>, a dot, and a final
  label of at least two letters, and nothing else.
\<close>

definition letter :: "char \<Rightarrow> bool" where
  "letter c = (let n = code c in (65 \<le> n \<and> n \<le> 90) \<or> (97 \<le> n \<and> n \<le> 122))"

definition digit :: "char \<Rightarrow> bool" where
  "digit c = (let n = code c in 48 \<le> n \<and> n \<le> 57)"

definition local_char :: "char \<Rightarrow> bool" where
  "local_char c = (letter c \<or> digit c \<or> c \<in> set ''._%+-'')"

definition domain_char :: "char \<Rightarrow> bool" where
  "domain_char c = (letter c \<or> digit c \<or> c = CHR ''.'' \<or> c = CHR ''-'')"

definition email_shape :: "string \<Rightarrow> bool" where
  "email_shape s = (\<exists>local domain tld.
      s = local @ ''@'' @ domain @ ''.'' @ tld \<and>
      local \<noteq> [] \<and> list_all local_char local \<and>
      domain \<noteq> [] \<and> list_all domain_char domain \<and>
      2 \<le> length tld \<and> list_all letter tld)"


section \<open>Configuration and the mail transport\<close>

text \<open>
  The module reads its configuration from the process environment once, when it is
  loaded. \<open>os.getenv(k)\<close> is \<open>None\<close> for a variable that is not set; \<open>os.getenv(k, d)\<close>
  is \<open>d\<close> then. \<open>int\<close> is Python's and is taken as a parameter: where it raises, the
  module does not load and there is no configuration.
\<close>

type_synonym environ = "string \<rightharpoonup> string"

record config =
  SMTP_HOST :: "string option"
  SMTP_PORT :: int
  SMTP_USER :: "string option"
  SMTP_PASS :: "string option"
  FROM_EMAIL :: string
  FROM_NAME :: string

definition getenv_default :: "environ \<Rightarrow> string \<Rightarrow> string \<Rightarrow> string" where
  "getenv_default env k d = (case env k of None \<Rightarrow> d | Some v \<Rightarrow> v)"

definition truthy :: "string option \<Rightarrow> bool" where
  \<comment> \<open>Python's truth value of a \<open>str\<close> or \<open>None\<close>\<close>
  "truthy v = (case v of None \<Rightarrow> False | Some s \<Rightarrow> s \<noteq> [])"

definition or_else :: "string option \<Rightarrow> string \<Rightarrow> string" where
  \<comment> \<open>\<open>v or d\<close>\<close>
  "or_else v d = (case v of None \<Rightarrow> d | Some s \<Rightarrow> if s = [] then d else s)"

definition load_config :: "(string \<Rightarrow> int option) \<Rightarrow> environ \<Rightarrow> config option" where
  "load_config py_int env =
     (case py_int (getenv_default env ''SMTP_PORT'' ''587'') of
        None \<Rightarrow> None
      | Some port \<Rightarrow> Some
          \<lparr>SMTP_HOST = env ''SMTP_HOST'',
           SMTP_PORT = port,
           SMTP_USER = env ''SMTP_USER'',
           SMTP_PASS = env ''SMTP_PASS'',
           FROM_EMAIL = getenv_default env ''FROM_EMAIL''
                          (or_else (env ''SMTP_USER'') ''demo@example.com''),
           FROM_NAME = getenv_default env ''FROM_NAME'' ''Mini-Brevo Demo''\<rparr>)"

text \<open>
  What lies outside the program is a state \<open>'w\<close> that the program can only reach through
  two operations: reading the clock (\<open>datetime.utcnow().isoformat()\<close>) and running the
  \<open>try\<close> block of \<open>send_email_smtp\<close> (building the message, connecting, STARTTLS, login,
  sendmail), which either runs to its end or raises an exception \<open>e\<close>, of which the
  program keeps \<open>str(e)\<close>. Both may change the outside state.
\<close>

datatype smtp_outcome = Delivered | Raised string

record 'w outside =
  utcnow_iso :: "'w \<Rightarrow> string \<times> 'w"
  smtp_session :: "config \<Rightarrow> string \<Rightarrow> string \<Rightarrow> string \<Rightarrow> 'w \<Rightarrow> smtp_outcome \<times> 'w"

definition configured :: "config \<Rightarrow> bool" where
  \<comment> \<open>\<open>SMTP_HOST and SMTP_USER and SMTP_PASS and FROM_EMAIL\<close>\<close>
  "configured cfg =
     (truthy (SMTP_HOST cfg) \<and> truthy (SMTP_USER cfg) \<and> truthy (SMTP_PASS cfg)
      \<and> FROM_EMAIL cfg \<noteq> [])"

definition send_email_smtp ::
  "'w outside \<Rightarrow> config \<Rightarrow> string \<Rightarrow> string \<Rightarrow> string \<Rightarrow> 'w \<Rightarrow> (bool \<times> string) \<times> 'w" where
  "send_email_smtp out cfg to_email subject body_html w =
     (if \<not> configured cfg
      then ((True, ''SIMULATED''), w)
      else (case smtp_session out cfg to_email subject body_html w of
              (Delivered, w') \<Rightarrow> ((True, []), w')
            | (Raised e, w') \<Rightarrow> ((False, e), w')))"

section \<open>The database\<close>

text \<open>
  Two of the three tables of \<open>init_db\<close> are needed here. Each has
  \<open>id INTEGER PRIMARY KEY AUTOINCREMENT\<close>: SQLite gives a new row the number after the
  largest it has ever given in that table, which it keeps in a counter (\<open>seq\<close>).
  \<open>contacts.email\<close> is \<open>UNIQUE\<close>. An \<open>INSERT\<close> whose email is already in the table
  fails with an \<open>IntegrityError\<close>; an \<open>INSERT OR IGNORE\<close> skips the row instead (the
  counter has moved on by then, the rows have not).
\<close>

record contact =
  c_id :: int
  c_name :: string
  c_email :: string
  c_tags :: string
  c_created_at :: string

record send_record =
  s_id :: int
  s_campaign_id :: "int option"
  s_contact_id :: "int option"
  s_email :: string
  s_status :: string
  s_error :: string
  s_sent_at :: string

record 'r table =
  rows :: "'r list"
  seq :: int

record database =
  contacts :: "contact table"
  sends :: "send_record table"

datatype db_error = IntegrityError string

datatype conflict_clause = Or_Abort | Or_Ignore

definition insert_into_contacts ::
  "conflict_clause \<Rightarrow> string \<Rightarrow> string \<Rightarrow> string \<Rightarrow> string \<Rightarrow> contact table \<Rightarrow> db_error + contact table" where
  "insert_into_contacts cc name email tags created t =
     (let rowid = seq t + 1 in
      if list_ex (\<lambda>r. c_email r = email) (rows t)
      then (case cc of
              Or_Abort \<Rightarrow> Inl (IntegrityError ''UNIQUE constraint failed: contacts.email'')
            | Or_Ignore \<Rightarrow> Inr (t\<lparr>seq := rowid\<rparr>))
      else Inr \<lparr>rows = rows t @ [\<lparr>c_id = rowid, c_name = name, c_email = email, c_tags = tags,
                                  c_created_at = created\<rparr>],
               seq = rowid\<rparr>)"

definition insert_into_sends ::
  "int option \<Rightarrow> int option \<Rightarrow> string \<Rightarrow> string \<Rightarrow> string \<Rightarrow> string \<Rightarrow> send_record table \<Rightarrow> send_record table" where
  "insert_into_sends campaign_id contact_id email status error sent_at t =
     (let rowid = seq t + 1 in
      \<lparr>rows = rows t @ [\<lparr>s_id = rowid, s_campaign_id = campaign_id, s_contact_id = contact_id,
                          s_email = email, s_status = status, s_error = error,
                          s_sent_at = sent_at\<rparr>],
       seq = rowid\<rparr>)"

text \<open>
  \<open>insert_contact\<close> and \<open>log_send\<close> of \<open>app.py\<close>. The first component of
  \<open>insert_contact\<close>'s result is the exception the call raises, if any.
\<close>

definition insert_contact ::
  "'w outside \<Rightarrow> string \<Rightarrow> string \<Rightarrow> string \<Rightarrow> 'w \<times> database \<Rightarrow> db_error option \<times> ('w \<times> database)" where
  "insert_contact out name email tags st =
     (case st of (w, db) \<Rightarrow>
        (case utcnow_iso out w of (now, w') \<Rightarrow>
           (case insert_into_contacts Or_Ignore (strip name) (lower (strip email)) (strip tags) now
                   (contacts db) of
              Inl e \<Rightarrow> (Some e, (w', db))
            | Inr t \<Rightarrow> (None, (w', db\<lparr>contacts := t\<rparr>)))))"

definition log_send ::
  "'w outside \<Rightarrow> int option \<Rightarrow> int option \<Rightarrow> string \<Rightarrow> string \<Rightarrow> string \<Rightarrow> 'w \<times> database \<Rightarrow> 'w \<times> database" where
  "log_send out campaign_id contact_id email status error st =
     (case st of (w, db) \<Rightarrow>
        (case utcnow_iso out w of (now, w') \<Rightarrow>
           (w', db\<lparr>sends := insert_into_sends campaign_id contact_id email status error now (sends db)\<rparr>)))"

section \<open>Rendering and sending a campaign\<close>

text \<open>
  \<open>str.replace(old, new)\<close>: every occurrence of \<open>old\<close>, found from left to right, each
  search starting after the previous occurrence. With an empty \<open>old\<close> Python puts \<open>new\<close>
  before every character and at the end.
\<close>

fun py_replace :: "string \<Rightarrow> string \<Rightarrow> string \<Rightarrow> string" where
  "py_replace old new [] = (if old = [] then new else [])"
| "py_replace old new (c # cs) =
     (if old = [] then new @ c # py_replace old new cs
      else if prefix old (c # cs) then new @ py_replace old new (drop (length old) (c # cs))
      else c # py_replace old new cs)"

text \<open>\<open>sep.join(parts)\<close>\<close>

fun join :: "string \<Rightarrow> string list \<Rightarrow> string" where
  "join sep [] = []"
| "join sep [x] = x"
| "join sep (x # y # ys) = x @ sep @ join sep (y # ys)"

text \<open>
  A recipient is a row of the cached contacts frame (\<open>itertuples\<close>), of which the page
  reads \<open>id\<close>, \<open>name\<close> and \<open>email\<close>; a name that is NULL in the table is \<open>None\<close>. A
  campaign is a row of the cached campaigns frame.
\<close>

record recipient =
  r_id :: int
  r_name :: "string option"
  r_email :: string

record campaign =
  camp_id :: int
  camp_subject :: string
  camp_body :: string

definition status_of :: "bool \<Rightarrow> string" where
  \<comment> \<open>\<open>"SENT" if ok else "ERROR"\<close>\<close>
  "status_of ok = (if ok then ''SENT'' else ''ERROR'')"

text \<open>The loop \<open>for r in recipients\<close> of the button "Enviar a TODOS los seleccionados".\<close>

fun send_loop ::
  "'w outside \<Rightarrow> config \<Rightarrow> campaign \<Rightarrow> recipient list \<Rightarrow> nat \<Rightarrow> 'w \<times> database \<Rightarrow> nat \<times> ('w \<times> database)" where
  "send_loop out cfg c [] sent_ok st = (sent_ok, st)"
| "send_loop out cfg c (r # rs) sent_ok st =
     (case st of (w, db) \<Rightarrow>
        (let personalized = py_replace ''{{name}}'' (or_else (r_name r) []) (camp_body c) in
         case send_email_smtp out cfg (r_email r) (camp_subject c) personalized w of
           ((ok, err), w1) \<Rightarrow>
             send_loop out cfg c rs (if ok then sent_ok + 1 else sent_ok)
               (log_send out (Some (camp_id c)) (Some (r_id r)) (r_email r) (status_of ok) err (w1, db))))"

definition page_send_all ::
  "'w outside \<Rightarrow> config \<Rightarrow> campaign \<Rightarrow> recipient list \<Rightarrow> 'w \<times> database \<Rightarrow> (nat \<times> nat) \<times> ('w \<times> database)" where
  \<comment> \<open>The pair is what the page reports: \<open>Enviados OK: {sent_ok}/{len(recipients)}\<close>.\<close>
  "page_send_all out cfg c recipients st =
     (case send_loop out cfg c recipients 0 st of
        (sent_ok, st') \<Rightarrow> ((sent_ok, length recipients), st'))"

text \<open>
  The button "Enviar PRUEBA". The first component is the transport's answer, or \<open>None\<close>
  when the page only asks for an address.
\<close>

definition page_send_test ::
  "'w outside \<Rightarrow> config \<Rightarrow> campaign \<Rightarrow> string \<Rightarrow> 'w \<times> database \<Rightarrow> (bool \<times> string) option \<times> ('w \<times> database)" where
  "page_send_test out cfg c test_email st =
     (case st of (w, db) \<Rightarrow>
        if test_email \<noteq> [] then
          (let body = py_replace ''{{name}}'' ''Prueba'' (camp_body c) in
           case send_email_smtp out cfg test_email (camp_subject c) body w of
             ((ok, err), w1) \<Rightarrow>
               (Some (ok, err),
                log_send out (Some (camp_id c)) None test_email (status_of ok) err (w1, db)))
        else (None, st))"

section \<open>Importing contacts\<close>

text \<open>
  \<open>str.splitlines()\<close>: the line boundaries below code point 256 are \<open>\n\<close>, \<open>\r\<close>, \<open>\r\n\<close>,
  \<open>\v\<close>, \<open>\f\<close>, \<open>\x1c\<close>, \<open>\x1d\<close>, \<open>\x1e\<close> and \<open>\x85\<close>; a boundary at the very end opens no
  further line. \<open>s.split(";")\<close> cuts at every semicolon and keeps empty pieces.
  \<open>re.split(r"[,\s;]+", s)\<close> cuts at every maximal run of separators and keeps an empty
  piece before a leading run and after a trailing one.
\<close>

definition is_linebreak :: "char \<Rightarrow> bool" where
  "is_linebreak c = (let n = code c in (10 \<le> n \<and> n \<le> 13) \<or> (28 \<le> n \<and> n \<le> 30) \<or> n = 133)"

fun splitlines_from :: "string \<Rightarrow> string \<Rightarrow> string list" where
  "splitlines_from cur [] = (if cur = [] then [] else [cur])"
| "splitlines_from cur [c] = (if is_linebreak c then [cur] else [cur @ [c]])"
| "splitlines_from cur (c # d # cs) =
     (if c = CHR 0x0D \<and> d = CHR 0x0A then cur # splitlines_from [] cs
      else if is_linebreak c then cur # splitlines_from [] (d # cs)
      else splitlines_from (cur @ [c]) (d # cs))"

definition splitlines :: "string \<Rightarrow> string list" where
  "splitlines s = splitlines_from [] s"

fun split_from :: "char \<Rightarrow> string \<Rightarrow> string \<Rightarrow> string list" where
  "split_from sep cur [] = [cur]"
| "split_from sep cur (c # cs) =
     (if c = sep then cur # split_from sep [] cs else split_from sep (cur @ [c]) cs)"

definition split :: "char \<Rightarrow> string \<Rightarrow> string list" where
  "split sep s = split_from sep [] s"

definition separator_class :: "atom list" where
  \<comment> \<open>\<open>[,\s;]\<close>\<close>
  "separator_class = [Lit CHR '','', Category_Space, Lit CHR '';'']"

function re_split_from :: "atom list \<Rightarrow> string \<Rightarrow> string \<Rightarrow> string list" where
  "re_split_from cls cur [] = [cur]"
| "re_split_from cls cur (c # cs) =
     (if in_class cls c then cur # re_split_from cls [] (dropWhile (in_class cls) cs)
      else re_split_from cls (cur @ [c]) cs)"
  by pat_completeness auto
termination
  by (relation "measure (\<lambda>(cls, cur, s). length s)")
     (auto simp: length_dropWhile_le less_Suc_eq_le)

definition re_split :: "atom list \<Rightarrow> string \<Rightarrow> string list" where
  \<comment> \<open>\<open>re.split\<close> with the pattern \<open>[...]+\<close> of the class\<close>
  "re_split cls s = re_split_from cls [] s"

text \<open>
  A data frame is its column labels and its rows; a row (a \<open>Series\<close>) is its cells in column
  order, each under its label. A cell is kept as the text \<open>str\<close> gives of it, which is all
  the program reads of a cell. \<open>pd.read_csv\<close> is not modelled: the CSV path starts from the
  frame it returns.
\<close>

type_synonym row = "(string \<times> string) list"

record dataframe =
  df_columns :: "string list"
  df_rows :: "row list"

definition df_empty :: "dataframe \<Rightarrow> bool" where
  "df_empty df = (df_columns df = [] \<or> df_rows df = [])"

definition row_cells :: "string \<Rightarrow> row \<Rightarrow> string list" where
  "row_cells label r = map snd (filter (\<lambda>kv. fst kv = label) r)"

text \<open>
  \<open>pd.DataFrame(rows)\<close> for a list of dicts with the keys \<open>email\<close>, \<open>name\<close>, \<open>tags\<close>; of an
  empty list it is the frame with no column.
\<close>

definition DataFrame :: "row list \<Rightarrow> dataframe" where
  "DataFrame rs =
     (if rs = [] then \<lparr>df_columns = [], df_rows = []\<rparr>
      else \<lparr>df_columns = [''email'', ''name'', ''tags''], df_rows = rs\<rparr>)"

text \<open>
  \<open>df[label] = df[label].astype(str).str.strip().str.lower()\<close>, \<open>df[label] = ""\<close> for a
  label the frame does not have, \<open>df.rename(columns=m)\<close>, \<open>df[mask]\<close>.
\<close>

definition map_column :: "string \<Rightarrow> (string \<Rightarrow> string) \<Rightarrow> dataframe \<Rightarrow> dataframe" where
  "map_column label f df =
     df\<lparr>df_rows := map (map (\<lambda>kv. if fst kv = label then (fst kv, f (snd kv)) else kv)) (df_rows df)\<rparr>"




definition filter_rows :: "(row \<Rightarrow> bool) \<Rightarrow> dataframe \<Rightarrow> dataframe" where
  "filter_rows keep df = df\<lparr>df_rows := filter keep (df_rows df)\<rparr>"

text \<open>
  \<open>df["email"].apply(is_valid_email)\<close> on a frame with one column \<open>email\<close>, row by row.
\<close>

definition mask_valid :: "row \<Rightarrow> bool" where
  "mask_valid r = (case row_cells ''email'' r of [v] \<Rightarrow> is_valid_email v | _ \<Rightarrow> False)"

text \<open>
  The five lines both paths share: normalise the email column, count the rows whose email
  is not valid, keep the others.
\<close>

definition validate_emails :: "dataframe \<Rightarrow> dataframe \<times> nat" where
  "validate_emails df =
     (let df1 = map_column ''email'' (\<lambda>v. lower (strip v)) df;
          skipped = length (filter (\<lambda>r. \<not> mask_valid r) (df_rows df1))
      in (filter_rows mask_valid df1, skipped))"

text \<open>
  \<open>df.drop_duplicates(subset=["email"], keep="first")\<close>: a row is dropped when an earlier row
  has the same cells under \<open>email\<close>.
\<close>

definition email_key :: "row \<Rightarrow> string list" where
  \<comment> \<open>what \<open>subset=["email"]\<close> compares\<close>
  "email_key r = row_cells ''email'' r"

fun drop_duplicates_from :: "string list list \<Rightarrow> row list \<Rightarrow> row list" where
  "drop_duplicates_from seen [] = []"
| "drop_duplicates_from seen (r # rs) =
     (if email_key r \<in> set seen then drop_duplicates_from seen rs
      else r # drop_duplicates_from (email_key r # seen) rs)"

definition drop_duplicates :: "dataframe \<Rightarrow> dataframe" where
  "drop_duplicates df = df\<lparr>df_rows := drop_duplicates_from [] (df_rows df)\<rparr>"

text \<open>The TXT path of \<open>page_contacts\<close>: the rows of one line, of the text, and the frame.\<close>

definition structured_row :: "string \<Rightarrow> row" where
  "structured_row ln =
     (let partes = map strip (split CHR '';'' ln);
          email = lower (if 1 \<le> length partes then partes ! 0 else []);
          name = (if 2 \<le> length partes then partes ! 1 else []);
          tags = (if 3 \<le> length partes then join '';'' (drop 2 partes) else [])
      in [(''email'', email), (''name'', name), (''tags'', tags)])"

definition token_rows :: "string \<Rightarrow> row list" where
  "token_rows ln =
     map (\<lambda>tok. [(''email'', tok), (''name'', []), (''tags'', [])])
       (map (\<lambda>t. lower (strip t)) (filter (\<lambda>t. strip t \<noteq> []) (re_split separator_class ln)))"

definition txt_rows :: "string \<Rightarrow> row list" where
  "txt_rows text =
     concat (map (\<lambda>ln. if CHR '';'' \<in> set ln then [structured_row ln] else token_rows ln)
                 (map strip (filter (\<lambda>l. strip l \<noteq> []) (splitlines text))))"

definition normalize_txt :: "string \<Rightarrow> dataframe \<times> nat" where
  "normalize_txt text =
     (let df = DataFrame (txt_rows text);
          (df1, skipped) = (if \<not> df_empty df then validate_emails df else (df, 0));
          df2 = (if \<not> df_empty df1 then drop_duplicates df1 else df1)
      in (df2, skipped))"




text \<open>
  \<open>bulk_import_contacts\<close>. \<open>row.get(label, "")\<close> is the cell under the label, the default
  when the row has no such label, and a sub-series when it has several; \<open>str\<close> of a
  sub-series is pandas' rendering of it, taken as a parameter.
\<close>

definition row_get_str :: "(string list \<Rightarrow> string) \<Rightarrow> string \<Rightarrow> string \<Rightarrow> row \<Rightarrow> string" where
  \<comment> \<open>\<open>str(row.get(label, dflt))\<close>\<close>
  "row_get_str series_str label dflt r =
     (case row_cells label r of [] \<Rightarrow> dflt | [v] \<Rightarrow> v | vs \<Rightarrow> series_str vs)"

fun bulk_import_loop ::
  "'w outside \<Rightarrow> (string list \<Rightarrow> string) \<Rightarrow> row list \<Rightarrow> nat \<Rightarrow> 'w \<times> database \<Rightarrow> nat \<times> ('w \<times> database)" where
  "bulk_import_loop out series_str [] count st = (count, st)"
| "bulk_import_loop out series_str (r # rs) count st =
     (let name = strip (row_get_str series_str ''name'' [] r);
          email = lower (strip (row_get_str series_str ''email'' [] r));
          tags = strip (row_get_str series_str ''tags'' [] r)
      in if email \<noteq> [] then
           (case insert_contact out name email tags st of
              (None, st') \<Rightarrow> bulk_import_loop out series_str rs (count + 1) st'
            | (Some e, st') \<Rightarrow> bulk_import_loop out series_str rs count st')
         else bulk_import_loop out series_str rs count st)"

definition bulk_import_contacts ::
  "'w outside \<Rightarrow> (string list \<Rightarrow> string) \<Rightarrow> dataframe \<Rightarrow> 'w \<times> database \<Rightarrow> nat \<times> ('w \<times> database)" where
  "bulk_import_contacts out series_str df st = bulk_import_loop out series_str (df_rows df) 0 st"




section \<open>Values for the examples\<close>

text \<open>
  An outside world that keeps the messages handed to the SMTP session, in order, and whose
  server answers by recipient; two configurations; a campaign; an empty database.
\<close>

type_synonym outbox = "(string \<times> string \<times> string) list"

definition demo_outside :: "(string \<Rightarrow> smtp_outcome) \<Rightarrow> outbox outside" where
  "demo_outside answer =
     \<lparr>utcnow_iso = (\<lambda>w. (''2024-01-01T00:00:00'', w)),
      smtp_session = (\<lambda>cfg to_email subject body w. (answer to_email, w @ [(to_email, subject, body)]))\<rparr>"

definition demo_config_set :: config where
  "demo_config_set =
     \<lparr>SMTP_HOST = Some ''smtp.example.com'', SMTP_PORT = 587, SMTP_USER = Some ''u'',
      SMTP_PASS = Some ''p'', FROM_EMAIL = ''u'', FROM_NAME = ''Mini-Brevo Demo''\<rparr>"

definition demo_config_unset :: config where
  "demo_config_unset =
     \<lparr>SMTP_HOST = None, SMTP_PORT = 587, SMTP_USER = None, SMTP_PASS = None,
      FROM_EMAIL = ''demo@example.com'', FROM_NAME = ''Mini-Brevo Demo''\<rparr>"

definition demo_campaign :: campaign where
  "demo_campaign = \<lparr>camp_id = 7, camp_subject = ''Hello'', camp_body = ''Hi {{name}}!''\<rparr>"

definition demo_recipients :: "recipient list" where
  "demo_recipients =
     [\<lparr>r_id = 1, r_name = Some ''Ana'', r_email = ''a@x.com''\<rparr>,
      \<lparr>r_id = 2, r_name = None, r_email = ''b@x.com''\<rparr>,
      \<lparr>r_id = 3, r_name = Some [], r_email = ''c@x.com''\<rparr>]"

definition demo_server :: "string \<Rightarrow> smtp_outcome" where
  "demo_server to_email = (if to_email = ''b@x.com'' then Raised ''550 mailbox unavailable'' else Delivered)"

definition empty_database :: database where
  "empty_database = \<lparr>contacts = \<lparr>rows = [], seq = 0\<rparr>, sends = \<lparr>rows = [], seq = 0\<rparr>\<rparr>"

definition one_contact_database :: database where
  "one_contact_database =
     \<lparr>contacts = \<lparr>rows = [\<lparr>c_id = 1, c_name = ''Ana'', c_email = ''a@x.com'', c_tags = ''t1'',
                              c_created_at = ''2023-12-31T00:00:00''\<rparr>], seq = 1\<rparr>,
      sends = \<lparr>rows = [], seq = 0\<rparr>\<rparr>"

definition demo_frame :: dataframe where
  "demo_frame =
     \<lparr>df_columns = [''email'', ''name'', ''tags''],
      df_rows = [[(''email'', ''a@x.com''), (''name'', ''Ana''), (''tags'', [])],
                 [(''email'', ''  ''), (''name'', ''Nobody''), (''tags'', [])],
                 [(''email'', '' A@X.COM ''), (''name'', ''Again''), (''tags'', ''t2'')]]\<rparr>"




section \<open>What the properties speak of\<close>

text \<open>
  The answers the transport gives along a run of the sending loop, one for each recipient
  in order. Between two calls the loop reads the clock once (in \<open>log_send\<close>).
\<close>

fun transport_results ::
  "'w outside \<Rightarrow> config \<Rightarrow> campaign \<Rightarrow> recipient list \<Rightarrow> 'w \<Rightarrow> (bool \<times> string) list" where
  "transport_results out cfg c [] w = []"
| "transport_results out cfg c (r # rs) w =
     (case send_email_smtp out cfg (r_email r) (camp_subject c)
             (py_replace ''{{name}}'' (or_else (r_name r) []) (camp_body c)) w of
        (res, w1) \<Rightarrow> res # transport_results out cfg c rs (snd (utcnow_iso out w1)))"

text \<open>The rows of \<open>sends\<close> that \<open>db'\<close> has after those of \<open>db\<close>.\<close>

definition appended :: "database \<Rightarrow> database \<Rightarrow> send_record list" where
  "appended db db' = drop (length (rows (sends db))) (rows (sends db'))"

text \<open>
  The rows of the TXT path once their emails are normalised and validated, in file order,
  before duplicates are dropped.
\<close>

definition txt_candidates :: "string \<Rightarrow> row list" where
  "txt_candidates text =
     filter mask_valid
       (map (map (\<lambda>kv. if fst kv = ''email'' then (fst kv, lower (strip (snd kv))) else kv))
            (txt_rows text))"

text \<open>The email \<open>bulk_import_contacts\<close> reads in a row.\<close>

definition attempted_email :: "(string list \<Rightarrow> string) \<Rightarrow> row \<Rightarrow> string" where
  "attempted_email series_str r = lower (strip (row_get_str series_str ''email'' [] r))"


text \<open>A string no proper part of which is both its beginning and its end.\<close>

definition unbordered :: "string \<Rightarrow> bool" where
  "unbordered t = (\<forall>p. p \<noteq> [] \<and> p \<noteq> t \<and> prefix p t \<longrightarrow> \<not> suffix p t)"


section \<open>The email validator\<close>

lemma in_letter_class: "in_class letter_class = letter"
  by (rule ext) (auto simp: in_class_def letter_class_def letter_def code_def Let_def)

lemma in_domain_class: "in_class domain_class = domain_char"
  by (rule ext) (auto simp: in_class_def domain_class_def domain_char_def letter_def digit_def code_def Let_def)

lemma in_local_class: "in_class local_class = local_char"
  by (rule ext) (auto simp: in_class_def local_class_def local_char_def letter_def digit_def code_def Let_def)

lemma max_repeat_iff:
  "re_match_from (Max_Repeat n cls # p) pos s \<longleftrightarrow>
   (\<exists>u v. s = u @ v \<and> n \<le> length u \<and> list_all (in_class cls) u \<and> re_match_from p (pos + length u) v)"
proof (induction s arbitrary: n pos)
  case Nil
  then show ?case by (cases n) auto
next
  case (Cons x xs)
  show ?case
  proof (cases n)
    case 0
    show ?thesis
      apply (simp add: 0 Cons.IH)
      apply (rule iffI)
       apply (erule disjE)
        apply clarsimp
      subgoal for u v by (rule exI[of _ "x # u"]) simp
       apply (rule exI[of _ "[]"]) apply simp
      apply clarsimp
      subgoal for u v by (cases u) auto
      done
  next
    case (Suc m)
    show ?thesis
      apply (simp add: Suc Cons.IH)
      apply (rule iffI)
       apply clarsimp
      subgoal for u v by (rule exI[of _ "x # u"]) simp
      apply clarsimp
      subgoal for u v by (cases u) auto
      done
  qed
qed

lemma literal_iff:
  "re_match_from (Literal c # p) pos s \<longleftrightarrow> (\<exists>v. s = c # v \<and> re_match_from p (Suc pos) v)"
  by (cases s) auto

lemma tld_iff:
  "re_match_from [Max_Repeat 2 letter_class, At_End] pos s \<longleftrightarrow>
     (\<exists>tld e. s = tld @ e \<and> 2 \<le> length tld \<and> list_all letter tld \<and> (e = [] \<or> e = [CHR 0x0A]))"
  by (simp add: max_repeat_iff in_letter_class)

lemma plus_then_literal_iff:
  "re_match_from (Max_Repeat 1 cls # Literal c # p) pos s \<longleftrightarrow>
     (\<exists>u w. s = u @ c # w \<and> u \<noteq> [] \<and> list_all (in_class cls) u \<and>
            re_match_from p (Suc (pos + length u)) w)"
  (is "?L = ?R")
proof
  assume ?L
  then obtain u v where uv: "s = u @ v" "1 \<le> length u" "list_all (in_class cls) u"
     "re_match_from (Literal c # p) (pos + length u) v"
    unfolding max_repeat_iff[of 1] by blast
  from uv(4) obtain w where w: "v = c # w" "re_match_from p (Suc (pos + length u)) w"
    unfolding literal_iff by blast
  from uv(2) have "u \<noteq> []" by auto
  with uv w show ?R by blast
next
  assume ?R
  then obtain u w where *: "s = u @ c # w" "u \<noteq> []" "list_all (in_class cls) u"
      "re_match_from p (Suc (pos + length u)) w" by blast
  from *(2) have "1 \<le> length u" by (cases u) auto
  moreover from *(4) have "re_match_from (Literal c # p) (pos + length u) (c # w)" by simp
  ultimately show ?L unfolding max_repeat_iff[of 1] using *(1,3) by blast
qed

lemma is_valid_email_iff:
  "is_valid_email s \<longleftrightarrow>
     (\<exists>local domain tld e. s = local @ ''@'' @ domain @ ''.'' @ tld @ e \<and>
        local \<noteq> [] \<and> list_all local_char local \<and>
        domain \<noteq> [] \<and> list_all domain_char domain \<and>
        2 \<le> length tld \<and> list_all letter tld \<and> (e = [] \<or> e = [CHR 0x0A]))"
  (is "?L = ?R")
proof
  assume ?L
  then have "re_match_from [Max_Repeat 1 local_class, Literal CHR ''@'', Max_Repeat 1 domain_class,
      Literal CHR ''.'', Max_Repeat 2 letter_class, At_End] 0 s"
    by (simp add: is_valid_email_def re_match_def email_pattern_def)
  then obtain l w where l: "s = l @ CHR ''@'' # w" "l \<noteq> []" "list_all local_char l"
     "re_match_from [Max_Repeat 1 domain_class,
      Literal CHR ''.'', Max_Repeat 2 letter_class, At_End] (Suc (0 + length l)) w"
    unfolding plus_then_literal_iff[of local_class] in_local_class by blast
  from l(4) obtain d x where d: "w = d @ CHR ''.'' # x" "d \<noteq> []" "list_all domain_char d"
     "re_match_from [Max_Repeat 2 letter_class, At_End] (Suc (Suc (0 + length l) + length d)) x"
    unfolding plus_then_literal_iff[of domain_class] in_domain_class by blast
  from d(4) obtain t e where t: "x = t @ e" "2 \<le> length t" "list_all letter t" "e = [] \<or> e = [CHR 0x0A]"
    unfolding tld_iff by blast
  have "s = l @ ''@'' @ d @ ''.'' @ t @ e" using l(1) d(1) t(1) by simp
  with l(2,3) d(2,3) t(2,3,4) show ?R by blast
next
  assume ?R
  then obtain l d t e where *: "s = l @ ''@'' @ d @ ''.'' @ t @ e" "l \<noteq> []" "list_all local_char l"
     "d \<noteq> []" "list_all domain_char d"
     "2 \<le> length t" "list_all letter t" "e = [] \<or> e = [CHR 0x0A]" by blast
  have "re_match_from [Max_Repeat 2 letter_class, At_End] (Suc (Suc (0 + length l) + length d)) (t @ e)"
    unfolding tld_iff using *(6,7,8) by blast
  with *(4,5) have "re_match_from [Max_Repeat 1 domain_class,
      Literal CHR ''.'', Max_Repeat 2 letter_class, At_End] (Suc (0 + length l)) (d @ CHR ''.'' # t @ e)"
    unfolding plus_then_literal_iff[of domain_class] in_domain_class by blast
  with *(2,3) have "re_match_from [Max_Repeat 1 local_class, Literal CHR ''@'', Max_Repeat 1 domain_class,
      Literal CHR ''.'', Max_Repeat 2 letter_class, At_End] 0 (l @ CHR ''@'' # d @ CHR ''.'' # t @ e)"
    unfolding plus_then_literal_iff[of local_class] in_local_class by blast
  then show ?L using *(1) by (simp add: is_valid_email_def re_match_def email_pattern_def)
qed

lemma is_valid_email_shape:
  "is_valid_email s \<longleftrightarrow> email_shape s \<or> (\<exists>t. s = t @ [CHR 0x0A] \<and> email_shape t)"
  (is "?L = ?R")
proof
  assume ?L
  then obtain l d t e where *: "s = l @ ''@'' @ d @ ''.'' @ t @ e" "l \<noteq> []" "list_all local_char l"
     "d \<noteq> []" "list_all domain_char d"
     "2 \<le> length t" "list_all letter t" "e = [] \<or> e = [CHR 0x0A]"
    unfolding is_valid_email_iff by blast
  have sh: "email_shape (l @ ''@'' @ d @ ''.'' @ t)"
    unfolding email_shape_def using *(2-7) by blast
  from *(8) show ?R
  proof
    assume "e = []"
    with sh *(1) show ?R by simp
  next
    assume "e = [CHR 0x0A]"
    with *(1) have "s = (l @ ''@'' @ d @ ''.'' @ t) @ [CHR 0x0A]" by simp
    with sh show ?R by blast
  qed
next
  assume ?R
  then show ?L
  proof
    assume "email_shape s"
    then obtain l d t where "s = l @ ''@'' @ d @ ''.'' @ t @ []" "l \<noteq> []" "list_all local_char l"
     "d \<noteq> []" "list_all domain_char d" "2 \<le> length t" "list_all letter t"
      unfolding email_shape_def by auto
    then show ?L unfolding is_valid_email_iff by blast
  next
    assume "\<exists>t. s = t @ [CHR 0x0A] \<and> email_shape t"
    then obtain l d t where "s = l @ ''@'' @ d @ ''.'' @ t @ [CHR 0x0A]" "l \<noteq> []" "list_all local_char l"
     "d \<noteq> []" "list_all domain_char d" "2 \<le> length t" "list_all letter t"
      unfolding email_shape_def by auto
    then show ?L unfolding is_valid_email_iff by blast
  qed
qed

lemma not_shape_newline: "\<not> email_shape (t @ [CHR 0x0A])"
proof
  assume "email_shape (t @ [CHR 0x0A])"
  then obtain l d tld where eq: "t @ [CHR 0x0A] = l @ ''@'' @ d @ ''.'' @ tld"
    and len: "2 \<le> length tld" and ltr: "list_all letter tld"
    unfolding email_shape_def by blast
  from len have ne: "tld \<noteq> []" by auto
  from eq ne have "last tld = CHR 0x0A"
    by (metis last_appendR last_snoc append_assoc append_is_Nil_conv)
  moreover from ltr ne have "letter (last tld)" by (simp add: list_all_iff)
  ultimately show False by (simp add: letter_def code_def)
qed


lemma is_valid_email_rejects_empty: "\<not> is_valid_email []"
  unfolding is_valid_email_iff by auto

lemma is_valid_email_needs_at: "CHR ''@'' \<notin> set s \<Longrightarrow> \<not> is_valid_email s"
  unfolding is_valid_email_iff by auto

lemma blank_in_no_class:
  "\<not> local_char CHR '' ''" "\<not> domain_char CHR '' ''" "\<not> letter CHR '' ''"
  by (simp_all add: local_char_def domain_char_def letter_def digit_def code_def Let_def)

lemma is_valid_email_rejects_blank:
  assumes "CHR '' '' \<in> set s" shows "\<not> is_valid_email s"
proof
  assume "is_valid_email s"
  then obtain l d t e where *: "s = l @ ''@'' @ d @ ''.'' @ t @ e" "list_all local_char l"
     "list_all domain_char d" "list_all letter t" "e = [] \<or> e = [CHR 0x0A]"
    unfolding is_valid_email_iff by blast
  from assms *(1,5) have "CHR '' '' \<in> set l \<or> CHR '' '' \<in> set d \<or> CHR '' '' \<in> set t"
    by auto
  with *(2,3,4) show False
    using blank_in_no_class by (auto simp: list_all_iff)
qed

text \<open>
  C1. The validator is claimed to accept exactly the strings of the \<open>local@domain.tld\<close>
  shape. Python's \<open>$\<close> also matches just before a final newline, so the validator
  accepts \<open>a@x.com\<close> followed by a newline, which is not of that shape
  (\<open>is_valid_email_shape\<close> above: a final newline is the only difference; the empty
  string, strings without \<open>@\<close> and strings with a blank are rejected as claimed).
\<close>

theorem is_valid_email_trailing_newline:
  "is_valid_email (''a@x.com'' @ [CHR 0x0A]) \<and> \<not> email_shape (''a@x.com'' @ [CHR 0x0A])"
proof
  show "is_valid_email (''a@x.com'' @ [CHR 0x0A])" by code_simp
  show "\<not> email_shape (''a@x.com'' @ [CHR 0x0A])" by (rule not_shape_newline)
qed

section \<open>The mail transport\<close>

lemma load_config_fields:
  assumes "load_config py_int env = Some cfg"
  shows "SMTP_HOST cfg = env ''SMTP_HOST''" "SMTP_USER cfg = env ''SMTP_USER''"
    "SMTP_PASS cfg = env ''SMTP_PASS''"
    "FROM_EMAIL cfg = getenv_default env ''FROM_EMAIL'' (or_else (env ''SMTP_USER'') ''demo@example.com'')"
  using assms by (auto simp: load_config_def split: option.splits)

lemma from_email_unset_is_truthy:
  assumes "load_config py_int env = Some cfg" "env ''FROM_EMAIL'' = None"
  shows "FROM_EMAIL cfg \<noteq> []"
  using assms
  by (auto simp: load_config_def getenv_default_def or_else_def split: option.splits if_splits)

lemma unset_environment_not_configured:
  assumes "load_config py_int env = Some cfg"
    and "\<not> truthy (env ''SMTP_HOST'') \<or> \<not> truthy (env ''SMTP_USER'') \<or> \<not> truthy (env ''SMTP_PASS'')
         \<or> env ''FROM_EMAIL'' = Some []"
  shows "\<not> configured cfg"
  using assms(2) unfolding configured_def load_config_fields[OF assms(1)]
  by (auto simp: getenv_default_def)

text \<open>
  C3. The credentials are the values the module holds: \<open>SMTP_HOST\<close>, \<open>SMTP_USER\<close>,
  \<open>SMTP_PASS\<close> (each \<open>None\<close> when its variable is not set) and \<open>FROM_EMAIL\<close> (the
  from-address after its default). Whenever one of them is unset or empty, the transport
  answers \<open>(true, "SIMULATED")\<close>, whatever the recipient, the subject and the body, and
  leaves the outside world as it was, whatever the SMTP session would have done there: no
  network I/O is attempted.
\<close>

theorem send_email_smtp_simulated:
  assumes "\<not> truthy (SMTP_HOST cfg) \<or> \<not> truthy (SMTP_USER cfg) \<or> \<not> truthy (SMTP_PASS cfg)
           \<or> FROM_EMAIL cfg = []"
  shows "send_email_smtp out cfg to_email subject body_html w = ((True, ''SIMULATED''), w)"
proof -
  from assms have "\<not> configured cfg" by (auto simp: configured_def)
  then show ?thesis by (simp add: send_email_smtp_def)
qed

theorem send_email_smtp_simulated_witness:
  "\<not> truthy (SMTP_PASS demo_config_unset)
   \<and> send_email_smtp (demo_outside (\<lambda>_. Raised ''unreachable'')) demo_config_unset
        ''a@x.com'' ''S'' ''B'' []
       = ((True, ''SIMULATED''), [])"
proof -
  have h: "\<not> truthy (SMTP_PASS demo_config_unset)"
    by (simp add: truthy_def demo_config_unset_def)
  then have h': "\<not> truthy (SMTP_HOST demo_config_unset) \<or> \<not> truthy (SMTP_USER demo_config_unset)
       \<or> \<not> truthy (SMTP_PASS demo_config_unset) \<or> FROM_EMAIL demo_config_unset = []"
    by simp
  show ?thesis by (intro conjI h send_email_smtp_simulated[OF h'])
qed

section \<open>The contact store\<close>

lemma insert_contact_present:
  assumes "list_ex (\<lambda>r. c_email r = lower (strip email)) (rows (contacts db))"
  shows "fst (insert_contact out name email tags (w, db)) = None"
    and "rows (contacts (snd (snd (insert_contact out name email tags (w, db))))) = rows (contacts db)"
    and "sends (snd (snd (insert_contact out name email tags (w, db)))) = sends db"
  using assms
  by (auto simp: insert_contact_def insert_into_contacts_def Let_def split: prod.splits)

lemma insert_contact_makes_present:
  "list_ex (\<lambda>r. c_email r = lower (strip email))
     (rows (contacts (snd (snd (insert_contact out name email tags st)))))"
  by (cases st)
     (auto simp: insert_contact_def insert_into_contacts_def Let_def list_ex_iff split: prod.splits)

lemma insert_contact_never_raises: "fst (insert_contact out name email tags st) = None"
  by (cases st) (auto simp: insert_contact_def insert_into_contacts_def Let_def split: prod.splits)

lemma plain_insert_raises:
  "list_ex (\<lambda>r. c_email r = email) (rows t) \<Longrightarrow>
     insert_into_contacts Or_Abort name email tags created t
       = Inl (IntegrityError ''UNIQUE constraint failed: contacts.email'')"
  by (simp add: insert_into_contacts_def)

text \<open>
  C4. When the trimmed, lower-cased email is already in \<open>contacts\<close>, \<open>insert_contact\<close>
  raises nothing and leaves the rows of the table as they were (their number and every
  field of every row). In every state, with every clock, inserting a contact and then
  inserting it again leaves the rows that inserting it once leaves. (The rows are the
  content of the store; SQLite's counter for the next id is not among them.)
\<close>

theorem insert_contact_idempotent:
  "(list_ex (\<lambda>r. c_email r = lower (strip email)) (rows (contacts db)) \<longrightarrow>
      fst (insert_contact out name email tags (w, db)) = None \<and>
      rows (contacts (snd (snd (insert_contact out name email tags (w, db))))) = rows (contacts db))
   \<and> fst (insert_contact out name email tags (w, db)) = None
   \<and> fst (insert_contact out name email tags (snd (insert_contact out name email tags (w, db)))) = None
   \<and> rows (contacts (snd (snd (insert_contact out name email tags
                                  (snd (insert_contact out name email tags (w, db)))))))
       = rows (contacts (snd (snd (insert_contact out name email tags (w, db)))))"
proof -
  obtain w1 db1 where once: "snd (insert_contact out name email tags (w, db)) = (w1, db1)"
    by (metis prod.exhaust)
  have "list_ex (\<lambda>r. c_email r = lower (strip email)) (rows (contacts db1))"
    using insert_contact_makes_present[of email out name tags "(w, db)"] once by simp
  then have "rows (contacts (snd (snd (insert_contact out name email tags (w1, db1))))) = rows (contacts db1)"
    by (rule insert_contact_present(2))
  then have twice: "rows (contacts (snd (snd (insert_contact out name email tags
                                  (snd (insert_contact out name email tags (w, db)))))))
       = rows (contacts (snd (snd (insert_contact out name email tags (w, db)))))"
    using once by simp
  have present: "list_ex (\<lambda>r. c_email r = lower (strip email)) (rows (contacts db)) \<longrightarrow>
      fst (insert_contact out name email tags (w, db)) = None \<and>
      rows (contacts (snd (snd (insert_contact out name email tags (w, db))))) = rows (contacts db)"
    by (intro impI conjI) (erule insert_contact_present(1), erule insert_contact_present(2))
  show ?thesis
    by (intro conjI present twice insert_contact_never_raises)
qed

theorem insert_contact_idempotent_witness:
  "list_ex (\<lambda>r. c_email r = lower (strip '' A@X.com '')) (rows (contacts one_contact_database))
   \<and> fst (insert_contact (demo_outside demo_server) ''Other'' '' A@X.com '' ''t2''
             ([], one_contact_database)) = None
   \<and> rows (contacts (snd (snd (insert_contact (demo_outside demo_server) ''Other'' '' A@X.com '' ''t2''
             ([], one_contact_database))))) = rows (contacts one_contact_database)"
proof -
  have h: "list_ex (\<lambda>r. c_email r = lower (strip '' A@X.com '')) (rows (contacts one_contact_database))"
    by code_simp
  from insert_contact_idempotent[of " '' A@X.com ''" one_contact_database "demo_outside demo_server"
        "''Other''" "''t2''" "[]"] h
  show ?thesis by blast
qed


section \<open>Rendering\<close>

lemma join_Cons: "ys \<noteq> [] \<Longrightarrow> join sep (x # ys) = x @ sep @ join sep ys"
  by (cases ys) auto

lemma unbordered_placeholder: "unbordered ''{{name}}''"
  unfolding unbordered_def
proof (intro allI impI)
  fix p :: string
  assume "p \<noteq> [] \<and> p \<noteq> ''{{name}}'' \<and> prefix p ''{{name}}''"
  then have "p \<in> set (prefixes ''{{name}}'')" "p \<noteq> []" "p \<noteq> ''{{name}}''"
    by (simp_all add: in_set_prefixes del: prefixes.simps)
  then have "p \<in> {''{'', ''{{'', ''{{n'', ''{{na'', ''{{nam'', ''{{name'', ''{{name}''}"
    by auto
  then show "\<not> suffix p ''{{name}}''"
    by (auto simp: suffix_def)
qed

lemma replace_no_occurrence:
  assumes "t \<noteq> []" "\<not> sublist t s"
  shows "py_replace t new s = s"
  using assms(2)
proof (induction s)
  case Nil
  then show ?case using assms(1) by simp
next
  case (Cons c cs)
  have "\<not> prefix t (c # cs)" using Cons.prems by (meson prefix_imp_sublist)
  moreover have "\<not> sublist t cs" using Cons.prems by (meson sublist_Cons_right)
  ultimately show ?case using assms(1) Cons.IH by simp
qed

lemma replace_at_occurrence:
  assumes "t \<noteq> []" "unbordered t" "\<not> sublist t seg"
  shows "py_replace t new (seg @ t @ rest) = seg @ new @ py_replace t new rest"
  using assms(3)
proof (induction seg)
  case Nil
  from assms(1) obtain c cs where t: "t = c # cs" by (cases t) auto
  have "py_replace t new (t @ rest) = new @ py_replace t new (drop (length t) (t @ rest))"
    using assms(1) by (simp add: t)
  then show ?case by simp
next
  case (Cons c cs)
  have no_prefix: "\<not> prefix t ((c # cs) @ t @ rest)"
  proof
    assume p: "prefix t ((c # cs) @ t @ rest)"
    show False
    proof (cases "length t \<le> length (c # cs)")
      case True
      with p have "prefix t (c # cs)"
        by (metis prefix_length_prefix prefixI append.assoc)
      then show False using Cons.prems by (meson prefix_imp_sublist)
    next
      case False
      then have "prefix (c # cs) t" using p
        by (metis prefix_length_prefix prefixI append.assoc nat_le_linear)
      then obtain q where q: "t = (c # cs) @ q" by (auto simp: prefix_def)
      with False have q_nonempty: "q \<noteq> []" by auto
      from q have q_proper: "q \<noteq> t" by auto
      from p q have "prefix q (t @ rest)" by simp
      moreover have "length q \<le> length t" using q by simp
      ultimately have "prefix q t"
        by (metis prefix_length_prefix prefixI)
      moreover have "suffix q t" using q by (auto simp: suffix_def)
      ultimately show False using assms(2) q_nonempty q_proper unfolding unbordered_def by blast
    qed
  qed
  have "\<not> sublist t cs" using Cons.prems by (meson sublist_Cons_right)
  with Cons.IH have "py_replace t new (cs @ t @ rest) = cs @ new @ py_replace t new rest" by simp
  with no_prefix assms(1) show ?case by simp
qed

lemma replace_join:
  assumes "t \<noteq> []" "unbordered t" "segs \<noteq> []" "\<forall>seg\<in>set segs. \<not> sublist t seg"
  shows "py_replace t new (join t segs) = join new segs"
  using assms(3,4)
proof (induction segs)
  case Nil
  then show ?case by simp
next
  case (Cons s ss)
  show ?case
  proof (cases ss)
    case Nil
    then show ?thesis using Cons.prems assms(1) by (simp add: replace_no_occurrence)
  next
    case (Cons y ys)
    then have "join t (s # ss) = s @ t @ join t ss" "join new (s # ss) = s @ new @ join new ss"
      by simp_all
    moreover have "py_replace t new (join t ss) = join new ss"
      using Cons.IH Cons.prems \<open>ss = y # ys\<close> by simp
    ultimately show ?thesis
      using replace_at_occurrence[OF assms(1,2), of s new "join t ss"] Cons.prems by simp
  qed
qed

lemma segments_exist:
  assumes "t \<noteq> []"
  shows "\<exists>segs. segs \<noteq> [] \<and> (\<forall>seg\<in>set segs. \<not> sublist t seg) \<and> body = join t segs"
proof (induction body)
  case Nil
  have "\<not> sublist t []" using assms by simp
  then show ?case by (intro exI[of _ "[[]]"]) simp
next
  case (Cons c cs)
  then obtain segs where segs: "segs \<noteq> []" "\<forall>seg\<in>set segs. \<not> sublist t seg" "cs = join t segs"
    by blast
  then obtain s0 rest where sr: "segs = s0 # rest" by (cases segs) auto
  show ?case
  proof (cases "prefix t (c # s0)")
    case False
    have "\<not> sublist t (c # s0)" using False segs(2) sr by (simp add: sublist_Cons_right)
    moreover have "c # cs = join t ((c # s0) # rest)" using segs(3) sr by (cases rest) auto
    ultimately show ?thesis using segs(2) sr by (intro exI[of _ "(c # s0) # rest"]) simp
  next
    case True
    then obtain s1 where s1: "c # s0 = t @ s1" by (auto simp: prefix_def)
    with assms have "suffix s1 s0" by (cases t) (auto simp: suffix_def)
    then have "\<not> sublist t s1" using segs(2) sr
      by (metis list.set_intros(1) sublist_order.order.trans suffix_imp_sublist)
    moreover have "\<not> sublist t []" using assms by simp
    moreover have "c # cs = join t ([] # s1 # rest)" using segs(3) sr s1 by (cases rest) auto
    ultimately show ?thesis using segs(2) sr by (intro exI[of _ "[] # s1 # rest"]) simp
  qed
qed

text \<open>
  C7. The body a recipient gets is \<open>campaign.body.replace("{{name}}", r.name or "")\<close>.
  However the body is cut into pieces that do not contain \<open>{{name}}\<close>, with \<open>{{name}}\<close>
  between each piece and the next, the rendering is the same pieces with the recipient's
  name (the empty string when the name is absent) between them; every body can be cut so.
  \<open>"Hi {{name}}!"\<close> gives \<open>"Hi !"\<close> for the name \<open>""\<close> and \<open>"Hi Ana!"\<close> for \<open>"Ana"\<close>.
\<close>

theorem render_replaces_every_placeholder:
  "(\<forall>segs. segs \<noteq> [] \<and> (\<forall>seg\<in>set segs. \<not> sublist ''{{name}}'' seg) \<longrightarrow>
       py_replace ''{{name}}'' (or_else name []) (join ''{{name}}'' segs) = join (or_else name []) segs)
   \<and> (\<exists>segs. segs \<noteq> [] \<and> (\<forall>seg\<in>set segs. \<not> sublist ''{{name}}'' seg) \<and> body = join ''{{name}}'' segs)
   \<and> or_else None [] = []
   \<and> py_replace ''{{name}}'' (or_else (Some []) []) ''Hi {{name}}!'' = ''Hi !''
   \<and> py_replace ''{{name}}'' (or_else (Some ''Ana'') []) ''Hi {{name}}!'' = ''Hi Ana!''"
proof (intro conjI allI impI)
  fix segs :: "string list"
  assume "segs \<noteq> [] \<and> (\<forall>seg\<in>set segs. \<not> sublist ''{{name}}'' seg)"
  then show "py_replace ''{{name}}'' (or_else name []) (join ''{{name}}'' segs) = join (or_else name []) segs"
    using replace_join[OF _ unbordered_placeholder, of segs] by simp
next
  show "\<exists>segs. segs \<noteq> [] \<and> (\<forall>seg\<in>set segs. \<not> sublist ''{{name}}'' seg) \<and> body = join ''{{name}}'' segs"
    by (rule segments_exist) simp
next
  show "or_else None [] = []" by (simp add: or_else_def)
next
  show "py_replace ''{{name}}'' (or_else (Some []) []) ''Hi {{name}}!'' = ''Hi !''" by code_simp
next
  show "py_replace ''{{name}}'' (or_else (Some ''Ana'') []) ''Hi {{name}}!'' = ''Hi Ana!''" by code_simp
qed

theorem render_replaces_every_placeholder_witness:
  "\<not> sublist ''{{name}}'' ''Dear '' \<and> \<not> sublist ''{{name}}'' '', hello ''
   \<and> \<not> sublist ''{{name}}'' ''}}.''
   \<and> py_replace ''{{name}}'' (or_else (Some ''Ana'') [])
        (join ''{{name}}'' [''Dear '', '', hello '', ''}}.''])
      = join (or_else (Some ''Ana'') []) [''Dear '', '', hello '', ''}}.'']"
proof -
  have h: "\<not> sublist ''{{name}}'' ''Dear ''" "\<not> sublist ''{{name}}'' '', hello ''"
     "\<not> sublist ''{{name}}'' ''}}.''"
    by code_simp+
  then have "[''Dear '', '', hello '', ''}}.''] \<noteq> [] \<and>
      (\<forall>seg\<in>set [''Dear '', '', hello '', ''}}.'']. \<not> sublist ''{{name}}'' seg)"
    by simp
  with render_replaces_every_placeholder[of "Some ''Ana''"]
  have "py_replace ''{{name}}'' (or_else (Some ''Ana'') [])
        (join ''{{name}}'' [''Dear '', '', hello '', ''}}.''])
      = join (or_else (Some ''Ana'') []) [''Dear '', '', hello '', ''}}.'']"
    by blast
  with h show ?thesis by (intro conjI)
qed

section \<open>The dispatcher\<close>

lemma log_send_rows:
  "log_send out cid rid email status err (w, db) = (w', db') \<Longrightarrow>
     w' = snd (utcnow_iso out w) \<and> contacts db' = contacts db \<and>
     (\<exists>rec. rows (sends db') = rows (sends db) @ [rec] \<and> s_campaign_id rec = cid
        \<and> s_contact_id rec = rid \<and> s_email rec = email \<and> s_status rec = status
        \<and> s_error rec = err)"
  by (auto simp: log_send_def insert_into_sends_def Let_def split: prod.splits)

lemma send_loop_log:
  "send_loop out cfg c rs acc (w, db) = (acc', (w', db')) \<Longrightarrow>
     acc' = acc + length (filter fst (transport_results out cfg c rs w)) \<and>
     contacts db' = contacts db \<and>
     (\<exists>new. rows (sends db') = rows (sends db) @ new \<and>
        map s_email new = map r_email rs \<and>
        map s_contact_id new = map (\<lambda>r. Some (r_id r)) rs \<and>
        list_all (\<lambda>x. s_campaign_id x = Some (camp_id c)) new \<and>
        map (\<lambda>x. (s_status x, s_error x)) new =
          map (\<lambda>res. (status_of (fst res), snd res)) (transport_results out cfg c rs w))"
proof (induction rs arbitrary: acc w db)
  case Nil
  then show ?case by simp
next
  case (Cons r rs)
  obtain ok err w1 where se: "send_email_smtp out cfg (r_email r) (camp_subject c)
             (py_replace ''{{name}}'' (or_else (r_name r) []) (camp_body c)) w = ((ok, err), w1)"
    by (metis prod.exhaust)
  obtain w2 db2 where ls:
    "log_send out (Some (camp_id c)) (Some (r_id r)) (r_email r) (status_of ok) err (w1, db) = (w2, db2)"
    by (metis prod.exhaust)
  from Cons.prems se ls
  have rest: "send_loop out cfg c rs (if ok then acc + 1 else acc) (w2, db2) = (acc', (w', db'))"
    by simp
  from log_send_rows[OF ls] obtain rec where rec:
     "w2 = snd (utcnow_iso out w1)" "contacts db2 = contacts db"
     "rows (sends db2) = rows (sends db) @ [rec]" "s_campaign_id rec = Some (camp_id c)"
     "s_contact_id rec = Some (r_id r)" "s_email rec = r_email r" "s_status rec = status_of ok"
     "s_error rec = err"
    by blast
  from Cons.IH[OF rest] obtain new where new:
     "acc' = (if ok then acc + 1 else acc) + length (filter fst (transport_results out cfg c rs w2))"
     "contacts db' = contacts db2"
     "rows (sends db') = rows (sends db2) @ new"
     "map s_email new = map r_email rs"
     "map s_contact_id new = map (\<lambda>r. Some (r_id r)) rs"
     "list_all (\<lambda>x. s_campaign_id x = Some (camp_id c)) new"
     "map (\<lambda>x. (s_status x, s_error x)) new =
          map (\<lambda>res. (status_of (fst res), snd res)) (transport_results out cfg c rs w2)"
    by blast
  have tr: "transport_results out cfg c (r # rs) w = (ok, err) # transport_results out cfg c rs w2"
    using se rec(1) by simp
  show ?case
  proof (intro conjI exI[of _ "rec # new"])
    show "acc' = acc + length (filter fst (transport_results out cfg c (r # rs) w))"
      using new(1) tr by simp
    show "contacts db' = contacts db" using new(2) rec(2) by simp
    show "rows (sends db') = rows (sends db) @ rec # new" using new(3) rec(3) by simp
    show "map s_email (rec # new) = map r_email (r # rs)" using new(4) rec(6) by simp
    show "map s_contact_id (rec # new) = map (\<lambda>r. Some (r_id r)) (r # rs)"
      using new(5) rec(5) by simp
    show "list_all (\<lambda>x. s_campaign_id x = Some (camp_id c)) (rec # new)"
      using new(6) rec(4) by simp
    show "map (\<lambda>x. (s_status x, s_error x)) (rec # new) =
          map (\<lambda>res. (status_of (fst res), snd res)) (transport_results out cfg c (r # rs) w)"
      using new(7) rec(7,8) tr by simp
  qed
qed

lemma length_transport_results: "length (transport_results out cfg c rs w) = length rs"
  by (induction rs arbitrary: w) (auto split: prod.splits)

lemma count_by_status:
  assumes "map (\<lambda>x. (s_status x, s_error x)) new = map (\<lambda>res. (status_of (fst res), snd res)) xs"
  shows "length (filter (\<lambda>x. s_status x = ''SENT'') new) = length (filter fst xs)"
    and "length (filter (\<lambda>x. s_status x = ''ERROR'') new) = length (filter (\<lambda>res. \<not> fst res) xs)"
  using assms
proof (induction new arbitrary: xs)
  case Nil
  { case 1 then show ?case by simp }
  { case 2 then show ?case by simp }
next
  case (Cons a new)
  { case 1 then show ?case using Cons.IH(1)
      by (cases xs) (auto simp: status_of_def split: if_splits) }
  { case 2 then show ?case using Cons.IH(2)
      by (cases xs) (auto simp: status_of_def split: if_splits) }
qed

lemma page_send_all_log:
  assumes "page_send_all out cfg c recipients (w, db) = (report, (w', db'))"
  shows "report = (length (filter fst (transport_results out cfg c recipients w)), length recipients)"
    and "contacts db' = contacts db"
    and "rows (sends db') = rows (sends db) @ appended db db'"
    and "map s_email (appended db db') = map r_email recipients"
    and "map s_contact_id (appended db db') = map (\<lambda>r. Some (r_id r)) recipients"
    and "list_all (\<lambda>x. s_campaign_id x = Some (camp_id c)) (appended db db')"
    and "map (\<lambda>x. (s_status x, s_error x)) (appended db db') =
           map (\<lambda>res. (status_of (fst res), snd res)) (transport_results out cfg c recipients w)"
proof -
  let ?res = "transport_results out cfg c recipients w"
  obtain sent_ok where sl: "send_loop out cfg c recipients 0 (w, db) = (sent_ok, (w', db'))"
    and rep: "report = (sent_ok, length recipients)"
    using assms by (auto simp: page_send_all_def split: prod.splits)
  from send_loop_log[OF sl] obtain new where new:
     "sent_ok = 0 + length (filter fst ?res)"
     "contacts db' = contacts db"
     "rows (sends db') = rows (sends db) @ new"
     "map s_email new = map r_email recipients"
     "map s_contact_id new = map (\<lambda>r. Some (r_id r)) recipients"
     "list_all (\<lambda>x. s_campaign_id x = Some (camp_id c)) new"
     "map (\<lambda>x. (s_status x, s_error x)) new = map (\<lambda>res. (status_of (fst res), snd res)) ?res"
    by blast
  have app: "appended db db' = new" by (simp add: appended_def new(3))
  show "report = (length (filter fst ?res), length recipients)" using rep new(1) by simp
  show "contacts db' = contacts db" by (rule new(2))
  show "rows (sends db') = rows (sends db) @ appended db db'" unfolding app by (rule new(3))
  show "map s_email (appended db db') = map r_email recipients" unfolding app by (rule new(4))
  show "map s_contact_id (appended db db') = map (\<lambda>r. Some (r_id r)) recipients"
    unfolding app by (rule new(5))
  show "list_all (\<lambda>x. s_campaign_id x = Some (camp_id c)) (appended db db')"
    unfolding app by (rule new(6))
  show "map (\<lambda>x. (s_status x, s_error x)) (appended db db') =
           map (\<lambda>res. (status_of (fst res), snd res)) ?res"
    unfolding app by (rule new(7))
qed

text \<open>
  C2. For a campaign and a list of \<open>n\<close> recipients, for \<open>k\<close> of which the transport fails:
  the page reports \<open>n - k\<close> of \<open>n\<close>; \<open>sends\<close> gets exactly \<open>n\<close> new rows, after those it had,
  one for each recipient in the order of the list (its email and its id), all with the
  campaign's id, each with the status and the error text of the transport's answer for that
  recipient, \<open>n - k\<close> of them SENT and \<open>k\<close> ERROR. No send is skipped after a failure.
\<close>

theorem dispatcher_aggregate:
  assumes "length recipients = n"
    and "length (filter (\<lambda>res. \<not> fst res) (transport_results out cfg c recipients w)) = k"
    and "page_send_all out cfg c recipients (w, db) = (report, (w', db'))"
  shows "report = (n - k, n) \<and>
         contacts db' = contacts db \<and>
         rows (sends db') = rows (sends db) @ appended db db' \<and>
         length (appended db db') = n \<and>
         map s_email (appended db db') = map r_email recipients \<and>
         map s_contact_id (appended db db') = map (\<lambda>r. Some (r_id r)) recipients \<and>
         list_all (\<lambda>x. s_campaign_id x = Some (camp_id c)) (appended db db') \<and>
         map (\<lambda>x. (s_status x, s_error x)) (appended db db') =
           map (\<lambda>res. (status_of (fst res), snd res)) (transport_results out cfg c recipients w) \<and>
         length (filter (\<lambda>x. s_status x = ''SENT'') (appended db db')) = n - k \<and>
         length (filter (\<lambda>x. s_status x = ''ERROR'') (appended db db')) = k"
proof -
  let ?res = "transport_results out cfg c recipients w"
  note log = page_send_all_log[OF assms(3)]
  have len: "length ?res = n" using assms(1) by (simp add: length_transport_results)
  have "length (filter fst ?res) + length (filter (\<lambda>res. \<not> fst res) ?res) = length ?res"
    by (simp add: sum_length_filter_compl)
  then have ok: "length (filter fst ?res) = n - k" using len assms(2) by simp
  have lnew: "length (appended db db') = n" using log(4) assms(1) by (metis length_map)
  show ?thesis
    using log ok lnew assms(1,2) count_by_status[OF log(7)] by simp
qed

theorem dispatcher_aggregate_witness:
  "length demo_recipients = 3
   \<and> length (filter (\<lambda>res. \<not> fst res)
        (transport_results (demo_outside demo_server) demo_config_set demo_campaign demo_recipients [])) = 1
   \<and> fst (page_send_all (demo_outside demo_server) demo_config_set demo_campaign demo_recipients
            ([], empty_database)) = (2, 3)
   \<and> map (\<lambda>x. (s_email x, s_campaign_id x, s_status x, s_error x))
       (rows (sends (snd (snd (page_send_all (demo_outside demo_server) demo_config_set demo_campaign
            demo_recipients ([], empty_database))))))
     = [(''a@x.com'', Some 7, ''SENT'', []),
        (''b@x.com'', Some 7, ''ERROR'', ''550 mailbox unavailable''),
        (''c@x.com'', Some 7, ''SENT'', [])]"
proof -
  let ?X = "page_send_all (demo_outside demo_server) demo_config_set demo_campaign demo_recipients
            ([], empty_database)"
  have h1: "length demo_recipients = 3" by (simp add: demo_recipients_def)
  have h2: "length (filter (\<lambda>res. \<not> fst res)
        (transport_results (demo_outside demo_server) demo_config_set demo_campaign demo_recipients [])) = 1"
    by code_simp
  have h3: "?X = (fst ?X, (fst (snd ?X), snd (snd ?X)))" by simp
  have rows: "map (\<lambda>x. (s_email x, s_campaign_id x, s_status x, s_error x))
       (rows (sends (snd (snd ?X))))
     = [(''a@x.com'', Some 7, ''SENT'', []),
        (''b@x.com'', Some 7, ''ERROR'', ''550 mailbox unavailable''),
        (''c@x.com'', Some 7, ''SENT'', [])]"
    by code_simp
  from dispatcher_aggregate[OF h1 h2 h3] have "fst ?X = (3 - 1, 3)" by (rule conjunct1)
  then have "fst ?X = (2, 3)" by simp
  with h1 h2 rows show ?thesis by (intro conjI)
qed

section \<open>The test send\<close>

text \<open>
  C8, as claimed: the test send renders the body with the name \<open>Test\<close> and appends one row
  for every test email. The page puts \<open>Prueba\<close> for \<open>{{name}}\<close>: the one message the SMTP
  session is handed here is \<open>Hi Prueba!\<close>, not \<open>Hi Test!\<close>. And with an empty test email the
  page sends nothing and appends nothing.
\<close>

theorem test_send_uses_prueba:
  "fst (snd (page_send_test (demo_outside demo_server) demo_config_set demo_campaign ''t@x.com''
              ([], empty_database)))
     = [(''t@x.com'', ''Hello'', ''Hi Prueba!'')]
   \<and> py_replace ''{{name}}'' ''Test'' (camp_body demo_campaign) = ''Hi Test!''
   \<and> page_send_test (demo_outside demo_server) demo_config_set demo_campaign []
        ([], empty_database) = (None, ([], empty_database))"
  by (intro conjI; code_simp)

lemma page_send_test_sends:
  assumes "test_email \<noteq> []"
  shows "let answer = send_email_smtp out cfg test_email (camp_subject c)
                        (py_replace ''{{name}}'' ''Prueba'' (camp_body c)) w;
             result = page_send_test out cfg c test_email (w, db)
         in fst result = Some (fst answer) \<and>
            fst (snd result) = snd (utcnow_iso out (snd answer)) \<and>
            contacts (snd (snd result)) = contacts db \<and>
            (\<exists>rec. rows (sends (snd (snd result))) = rows (sends db) @ [rec] \<and>
                   s_campaign_id rec = Some (camp_id c) \<and> s_contact_id rec = None \<and>
                   s_email rec = test_email \<and> s_status rec = status_of (fst (fst answer)) \<and>
                   s_error rec = snd (fst answer))"
proof -
  obtain ok err w1 where se: "send_email_smtp out cfg test_email (camp_subject c)
                        (py_replace ''{{name}}'' ''Prueba'' (camp_body c)) w = ((ok, err), w1)"
    by (metis prod.exhaust)
  obtain w2 db2 where ls:
    "log_send out (Some (camp_id c)) None test_email (status_of ok) err (w1, db) = (w2, db2)"
    by (metis prod.exhaust)
  have res: "page_send_test out cfg c test_email (w, db) = (Some (ok, err), (w2, db2))"
    using assms se ls by (simp add: page_send_test_def)
  from log_send_rows[OF ls] show ?thesis
    unfolding Let_def se res by simp
qed

lemma page_send_test_empty: "page_send_test out cfg c [] st = (None, st)"
  by (cases st) (simp add: page_send_test_def)

text \<open>
  C8, amended: for every campaign and every non-empty test email, the test send hands the
  transport that one address, the campaign's subject and the body with \<open>Prueba\<close> for every
  \<open>{{name}}\<close>, shows the transport's answer, and appends exactly one row to \<open>sends\<close>, with
  the campaign's id, no contact id, the test email, and the status and error text of the
  answer. With an empty test email, in every state, nothing is sent and nothing is
  recorded: the outside world and the database are as they were.
\<close>

theorem page_send_test_record:
  "(test_email \<noteq> [] \<longrightarrow>
      (let answer = send_email_smtp out cfg test_email (camp_subject c)
                        (py_replace ''{{name}}'' ''Prueba'' (camp_body c)) w;
           result = page_send_test out cfg c test_email (w, db)
       in fst result = Some (fst answer) \<and>
          fst (snd result) = snd (utcnow_iso out (snd answer)) \<and>
          contacts (snd (snd result)) = contacts db \<and>
          (\<exists>rec. rows (sends (snd (snd result))) = rows (sends db) @ [rec] \<and>
                 s_campaign_id rec = Some (camp_id c) \<and> s_contact_id rec = None \<and>
                 s_email rec = test_email \<and> s_status rec = status_of (fst (fst answer)) \<and>
                 s_error rec = snd (fst answer))))
   \<and> page_send_test out cfg c [] (w, db) = (None, (w, db))"
  using page_send_test_sends[of test_email out cfg c w db]
    page_send_test_empty[of out cfg c "(w, db)"]
  by (intro conjI impI) assumption+

theorem page_send_test_record_witness:
  "''t@x.com'' \<noteq> []
   \<and> (\<exists>rec. rows (sends (snd (snd (page_send_test (demo_outside demo_server) demo_config_set
                 demo_campaign ''t@x.com'' ([], one_contact_database)))))
             = rows (sends one_contact_database) @ [rec]
           \<and> s_contact_id rec = None \<and> s_email rec = ''t@x.com'')
   \<and> page_send_test (demo_outside demo_server) demo_config_set demo_campaign []
        ([], one_contact_database) = (None, ([], one_contact_database))"
proof -
  have h: "''t@x.com'' \<noteq> []" by simp
  note t = page_send_test_record[of "''t@x.com''" "demo_outside demo_server" demo_config_set
         demo_campaign "[]" one_contact_database]
  from t h have a: "\<exists>rec. rows (sends (snd (snd (page_send_test (demo_outside demo_server)
                 demo_config_set demo_campaign ''t@x.com'' ([], one_contact_database)))))
             = rows (sends one_contact_database) @ [rec]
           \<and> s_contact_id rec = None \<and> s_email rec = ''t@x.com''"
    unfolding Let_def by blast
  from t have b: "page_send_test (demo_outside demo_server) demo_config_set demo_campaign []
        ([], one_contact_database) = (None, ([], one_contact_database))"
    by (rule conjunct2)
  from h a b show ?thesis by (intro conjI)
qed

section \<open>The send log\<close>

lemma send_email_smtp_answer:
  "send_email_smtp out cfg to_email subject body w = ((ok, err), w1) \<Longrightarrow>
     ok \<Longrightarrow> err = (if configured cfg then [] else ''SIMULATED'')"
  by (auto simp: send_email_smtp_def split: if_splits prod.splits smtp_outcome.splits)

lemma transport_results_answer:
  "res \<in> set (transport_results out cfg c rs w) \<Longrightarrow>
     fst res \<Longrightarrow> snd res = (if configured cfg then [] else ''SIMULATED'')"
proof (induction rs arbitrary: w)
  case Nil
  then show ?case by simp
next
  case (Cons r rs)
  obtain ok err w1 where se: "send_email_smtp out cfg (r_email r) (camp_subject c)
             (py_replace ''{{name}}'' (or_else (r_name r) []) (camp_body c)) w = ((ok, err), w1)"
    by (metis prod.exhaust)
  from Cons.prems(1) se
  have "res = (ok, err) \<or> res \<in> set (transport_results out cfg c rs (snd (utcnow_iso out w1)))"
    by simp
  then show ?case
  proof
    assume "res = (ok, err)"
    with Cons.prems(2) send_email_smtp_answer[OF se] show ?thesis by simp
  next
    assume "res \<in> set (transport_results out cfg c rs (snd (utcnow_iso out w1)))"
    then show ?thesis using Cons.IH Cons.prems(2) by blast
  qed
qed

lemma status_of_cases: "status_of ok = ''SENT'' \<or> status_of ok = ''ERROR''"
  by (simp add: status_of_def)

lemma status_of_sent: "status_of ok = ''SENT'' \<longleftrightarrow> ok"
  by (simp add: status_of_def)

text \<open>
  C9, as claimed: a row with status SENT has an empty error field. With the transport not
  configured every send is simulated, and the three rows the dispatcher appends here have
  status SENT and the error text \<open>SIMULATED\<close>.
\<close>

theorem simulated_rows_carry_text:
  "map (\<lambda>x. (s_status x, s_error x))
     (appended empty_database
        (snd (snd (page_send_all (demo_outside demo_server) demo_config_unset demo_campaign
                     demo_recipients ([], empty_database)))))
   = [(''SENT'', ''SIMULATED''), (''SENT'', ''SIMULATED''), (''SENT'', ''SIMULATED'')]"
  by code_simp

lemma dispatcher_row_status:
  assumes "rec \<in> set (appended db (snd (snd (page_send_all out cfg c recipients (w, db)))))"
  shows "s_status rec = ''SENT'' \<or> s_status rec = ''ERROR''"
    and "s_status rec = ''SENT'' \<Longrightarrow> s_error rec = (if configured cfg then [] else ''SIMULATED'')"
proof -
  obtain report w' db' where run: "page_send_all out cfg c recipients (w, db) = (report, (w', db'))"
    by (metis prod.exhaust)
  note m = page_send_all_log(7)[OF run]
  from assms run
  have "(s_status rec, s_error rec) \<in> set (map (\<lambda>x. (s_status x, s_error x)) (appended db db'))"
    by auto
  with m obtain res where res: "res \<in> set (transport_results out cfg c recipients w)"
       "s_status rec = status_of (fst res)" "s_error rec = snd res"
    by auto
  show "s_status rec = ''SENT'' \<or> s_status rec = ''ERROR''"
    using res(2) status_of_cases[of "fst res"] by simp
  show "s_error rec = (if configured cfg then [] else ''SIMULATED'')" if "s_status rec = ''SENT''"
    using that res(2,3) transport_results_answer[OF res(1)] by (simp add: status_of_sent)
qed

lemma test_row_status:
  assumes "rec \<in> set (appended db (snd (snd (page_send_test out cfg c test_email (w, db)))))"
  shows "s_status rec = ''SENT'' \<or> s_status rec = ''ERROR''"
    and "s_status rec = ''SENT'' \<Longrightarrow> s_error rec = (if configured cfg then [] else ''SIMULATED'')"
proof -
  have ne: "test_email \<noteq> []"
    using assms by (auto simp: page_send_test_def appended_def)
  obtain ok err w1 where se: "send_email_smtp out cfg test_email (camp_subject c)
                        (py_replace ''{{name}}'' ''Prueba'' (camp_body c)) w = ((ok, err), w1)"
    by (metis prod.exhaust)
  obtain w2 db2 where ls:
    "log_send out (Some (camp_id c)) None test_email (status_of ok) err (w1, db) = (w2, db2)"
    by (metis prod.exhaust)
  have res: "page_send_test out cfg c test_email (w, db) = (Some (ok, err), (w2, db2))"
    using ne se ls by (simp add: page_send_test_def)
  from log_send_rows[OF ls] obtain r0 where r0: "rows (sends db2) = rows (sends db) @ [r0]"
      "s_status r0 = status_of ok" "s_error r0 = err" by blast
  from assms res r0(1) have rec: "rec = r0" by (simp add: appended_def)
  show "s_status rec = ''SENT'' \<or> s_status rec = ''ERROR''"
    using rec r0(2) status_of_cases[of ok] by simp
  show "s_error rec = (if configured cfg then [] else ''SIMULATED'')" if "s_status rec = ''SENT''"
    using that rec r0(2,3) send_email_smtp_answer[OF se] by (simp add: status_of_sent)
qed

text \<open>
  C9, amended: every row the dispatcher or the test send appends has status SENT or ERROR,
  and when the status is SENT the error field is the empty string if the transport is
  configured (a real delivery) and \<open>SIMULATED\<close> if it is not.
\<close>

theorem send_record_status:
  "(\<forall>rec \<in> set (appended db (snd (snd (page_send_all out cfg c recipients (w, db))))).
       (s_status rec = ''SENT'' \<or> s_status rec = ''ERROR'') \<and>
       (s_status rec = ''SENT'' \<longrightarrow> s_error rec = (if configured cfg then [] else ''SIMULATED'')))
   \<and> (\<forall>rec \<in> set (appended db (snd (snd (page_send_test out cfg c test_email (w, db))))).
       (s_status rec = ''SENT'' \<or> s_status rec = ''ERROR'') \<and>
       (s_status rec = ''SENT'' \<longrightarrow> s_error rec = (if configured cfg then [] else ''SIMULATED'')))"
  by (intro conjI ballI impI;
      (erule dispatcher_row_status(1) | erule test_row_status(1)
       | (erule dispatcher_row_status(2), assumption) | (erule test_row_status(2), assumption)))

theorem send_record_status_witness:
  "\<lparr>s_id = 1, s_campaign_id = Some 7, s_contact_id = None, s_email = ''t@x.com'',
     s_status = ''SENT'', s_error = ''SIMULATED'', s_sent_at = ''2024-01-01T00:00:00''\<rparr>
     \<in> set (appended empty_database
          (snd (snd (page_send_test (demo_outside demo_server) demo_config_unset demo_campaign
                       ''t@x.com'' ([], empty_database)))))
   \<and> s_error \<lparr>s_id = 1, s_campaign_id = Some 7, s_contact_id = None, s_email = ''t@x.com'',
     s_status = ''SENT'', s_error = ''SIMULATED'', s_sent_at = ''2024-01-01T00:00:00''\<rparr>
      = (if configured demo_config_unset then [] else ''SIMULATED'')
   \<and> \<lparr>s_id = 3, s_campaign_id = Some 7, s_contact_id = Some 3, s_email = ''c@x.com'',
     s_status = ''SENT'', s_error = [], s_sent_at = ''2024-01-01T00:00:00''\<rparr>
     \<in> set (appended empty_database
          (snd (snd (page_send_all (demo_outside demo_server) demo_config_set demo_campaign
                       demo_recipients ([], empty_database)))))
   \<and> s_error \<lparr>s_id = 3, s_campaign_id = Some 7, s_contact_id = Some 3, s_email = ''c@x.com'',
     s_status = ''SENT'', s_error = [], s_sent_at = ''2024-01-01T00:00:00''\<rparr>
      = (if configured demo_config_set then [] else ''SIMULATED'')"
proof -
  let ?t = "\<lparr>s_id = 1, s_campaign_id = Some 7, s_contact_id = None, s_email = ''t@x.com'',
     s_status = ''SENT'', s_error = ''SIMULATED'', s_sent_at = ''2024-01-01T00:00:00''\<rparr>"
  let ?d = "\<lparr>s_id = 3, s_campaign_id = Some 7, s_contact_id = Some 3, s_email = ''c@x.com'',
     s_status = ''SENT'', s_error = [], s_sent_at = ''2024-01-01T00:00:00''\<rparr>"
  have mem_t: "?t \<in> set (appended empty_database
          (snd (snd (page_send_test (demo_outside demo_server) demo_config_unset demo_campaign
                       ''t@x.com'' ([], empty_database)))))"
    by code_simp
  have mem_d: "?d \<in> set (appended empty_database
          (snd (snd (page_send_all (demo_outside demo_server) demo_config_set demo_campaign
                       demo_recipients ([], empty_database)))))"
    by code_simp
  have sent: "s_status ?t = ''SENT''" "s_status ?d = ''SENT''" by simp_all
  from send_record_status[of empty_database "demo_outside demo_server" demo_config_unset
         demo_campaign _ "[]" "''t@x.com''"] mem_t
  have "s_status ?t = ''SENT'' \<longrightarrow>
          s_error ?t = (if configured demo_config_unset then [] else ''SIMULATED'')"
    by blast
  with sent have t: "s_error ?t = (if configured demo_config_unset then [] else ''SIMULATED'')"
    by blast
  from send_record_status[of empty_database "demo_outside demo_server" demo_config_set
         demo_campaign demo_recipients "[]"] mem_d
  have "s_status ?d = ''SENT'' \<longrightarrow>
          s_error ?d = (if configured demo_config_set then [] else ''SIMULATED'')"
    by blast
  with sent have d: "s_error ?d = (if configured demo_config_set then [] else ''SIMULATED'')"
    by blast
  from mem_t t mem_d d show ?thesis by (intro conjI)
qed

section \<open>Normalising strings\<close>

lemma code_lower_char:
  "code (lower_char c) =
     (if (65 \<le> code c \<and> code c \<le> 90) \<or> (192 \<le> code c \<and> code c \<le> 222 \<and> code c \<noteq> 215)
      then code c + 32 else code c)"
  by (auto simp: lower_char_def code_def Let_def)

lemma lower_char_other:
  "\<not> ((65 \<le> code x \<and> code x \<le> 90) \<or> (192 \<le> code x \<and> code x \<le> 222 \<and> code x \<noteq> 215))
     \<Longrightarrow> lower_char x = x"
  by (auto simp: lower_char_def Let_def)

lemma lower_char_idem: "lower_char (lower_char c) = lower_char c"
proof (rule lower_char_other)
  show "\<not> ((65 \<le> code (lower_char c) \<and> code (lower_char c) \<le> 90) \<or>
            (192 \<le> code (lower_char c) \<and> code (lower_char c) \<le> 222 \<and> code (lower_char c) \<noteq> 215))"
    unfolding code_lower_char by auto
qed

lemma is_space_lower_char: "is_space (lower_char c) = is_space c"
  unfolding is_space_def Let_def code_lower_char by auto

lemma lower_idem: "lower (lower s) = lower s"
  by (simp add: lower_def lower_char_idem)

lemma dropWhile_space_lower: "dropWhile is_space (lower s) = lower (dropWhile is_space s)"
  by (induction s) (auto simp: lower_def is_space_lower_char)

lemma strip_lower: "strip (lower s) = lower (strip s)"
proof -
  have r: "rev (lower s) = lower (rev s)" for s by (simp add: lower_def rev_map)
  show ?thesis
    unfolding strip_def lstrip_def rstrip_def
    by (simp add: dropWhile_space_lower r[symmetric]) (simp add: r dropWhile_space_lower)
qed

lemma lstrip_no_leading_space: "dropWhile is_space (dropWhile is_space s) = dropWhile is_space s"
  by (induction s) auto

lemma strip_idem: "strip (strip s) = strip s"
proof -
  let ?t = "dropWhile is_space s"
  let ?u = "rev (dropWhile is_space (rev ?t))"
  have "dropWhile is_space ?u = ?u"
  proof (cases "?u")
    case Nil
    show ?thesis unfolding Nil by simp
  next
    case (Cons a as)
    then have une: "dropWhile is_space (rev ?t) \<noteq> []" by auto
    then have "?t \<noteq> []" by (metis dropWhile.simps(1) rev.simps(1))
    then have "\<not> is_space (hd ?t)" by (metis hd_dropWhile)
    moreover have "hd ?u = hd ?t"
    proof -
      obtain p where p: "rev ?t = takeWhile is_space (rev ?t) @ dropWhile is_space (rev ?t)" by simp
      then have "?t = ?u @ rev (takeWhile is_space (rev ?t))"
        by (metis rev_append rev_rev_ident)
      then show ?thesis using une by (metis hd_append2 rev_is_Nil_conv)
    qed
    ultimately have "\<not> is_space a" using Cons by simp
    then show ?thesis using Cons by simp
  qed
  moreover have "dropWhile is_space (rev ?u) = rev ?u"
    by (simp add: lstrip_no_leading_space)
  ultimately show ?thesis
    unfolding strip_def lstrip_def rstrip_def by simp
qed

lemma normalised_email_idem: "lower (strip (lower (strip s))) = lower (strip s)"
  by (simp add: strip_lower strip_idem lower_idem)

section \<open>Bulk import\<close>

lemma insert_contact_adds_at_most_one:
  "length (rows (contacts (snd (snd (insert_contact out name email tags st)))))
     \<le> Suc (length (rows (contacts (snd st))))"
  by (cases st)
     (auto simp: insert_contact_def insert_into_contacts_def Let_def split: prod.splits)

lemma bulk_import_loop_step:
  "bulk_import_loop out series_str (r # rs) count st =
     (if attempted_email series_str r \<noteq> []
      then bulk_import_loop out series_str rs (count + 1)
             (snd (insert_contact out (strip (row_get_str series_str ''name'' [] r))
                     (attempted_email series_str r)
                     (strip (row_get_str series_str ''tags'' [] r)) st))
      else bulk_import_loop out series_str rs count st)"
proof -
  obtain e st' where ic: "insert_contact out (strip (row_get_str series_str ''name'' [] r))
                     (attempted_email series_str r)
                     (strip (row_get_str series_str ''tags'' [] r)) st = (e, st')"
    by (metis prod.exhaust)
  then have "e = None" using insert_contact_never_raises by (metis fst_conv)
  with ic show ?thesis by (simp add: attempted_email_def Let_def)
qed

lemma bulk_import_loop_count:
  "fst (bulk_import_loop out series_str rs count st)
     = count + length (filter (\<lambda>r. attempted_email series_str r \<noteq> []) rs)"
proof (induction rs arbitrary: count st)
  case Nil
  then show ?case by simp
next
  case (Cons r rs)
  show ?case unfolding bulk_import_loop_step by (simp add: Cons.IH)
qed

lemma bulk_import_loop_added:
  "length (rows (contacts (snd (snd (bulk_import_loop out series_str rs count st)))))
     \<le> length (rows (contacts (snd st)))
         + length (filter (\<lambda>r. attempted_email series_str r \<noteq> []) rs)"
proof (induction rs arbitrary: count st)
  case Nil
  then show ?case by simp
next
  case (Cons r rs)
  show ?case
  proof (cases "attempted_email series_str r \<noteq> []")
    case True
    let ?st' = "snd (insert_contact out (strip (row_get_str series_str ''name'' [] r))
                     (attempted_email series_str r)
                     (strip (row_get_str series_str ''tags'' [] r)) st)"
    have "length (rows (contacts (snd ?st'))) \<le> Suc (length (rows (contacts (snd st))))"
      by (rule insert_contact_adds_at_most_one)
    moreover have "length (rows (contacts (snd (snd (bulk_import_loop out series_str rs (count + 1) ?st')))))
       \<le> length (rows (contacts (snd ?st')))
           + length (filter (\<lambda>r. attempted_email series_str r \<noteq> []) rs)"
      by (rule Cons.IH)
    ultimately show ?thesis unfolding bulk_import_loop_step using True by simp
  next
    case False
    then show ?thesis unfolding bulk_import_loop_step using Cons.IH[of count st] by simp
  qed
qed

lemma bulk_import_loop_present:
  assumes "\<forall>r\<in>set rs. attempted_email series_str r = [] \<or>
             list_ex (\<lambda>c. c_email c = attempted_email series_str r) (rows (contacts db))"
  shows "rows (contacts (snd (snd (bulk_import_loop out series_str rs count (w, db)))))
           = rows (contacts db)"
  using assms
proof (induction rs arbitrary: count w db)
  case Nil
  then show ?case by simp
next
  case (Cons r rs)
  show ?case
  proof (cases "attempted_email series_str r \<noteq> []")
    case True
    let ?name = "strip (row_get_str series_str ''name'' [] r)"
    let ?tags = "strip (row_get_str series_str ''tags'' [] r)"
    obtain w1 db1 where st1: "snd (insert_contact out ?name (attempted_email series_str r) ?tags (w, db))
        = (w1, db1)"
      by (metis prod.exhaust)
    have key: "lower (strip (attempted_email series_str r)) = attempted_email series_str r"
      by (simp add: attempted_email_def normalised_email_idem)
    from Cons.prems True
    have "list_ex (\<lambda>c. c_email c = lower (strip (attempted_email series_str r))) (rows (contacts db))"
      by (simp add: key)
    from insert_contact_present(2)[OF this, of out ?name ?tags w] st1
    have same: "rows (contacts db1) = rows (contacts db)" by simp
    have "rows (contacts (snd (snd (bulk_import_loop out series_str rs (count + 1) (w1, db1)))))
            = rows (contacts db1)"
      by (rule Cons.IH) (use Cons.prems same in simp)
    then show ?thesis unfolding bulk_import_loop_step using True st1 same by simp
  next
    case False
    have "rows (contacts (snd (snd (bulk_import_loop out series_str rs count (w, db)))))
            = rows (contacts db)"
      by (rule Cons.IH) (use Cons.prems in simp)
    then show ?thesis unfolding bulk_import_loop_step using False by simp
  qed
qed

text \<open>
  C10. The number \<open>bulk_import_contacts\<close> returns is the number of rows whose email, read
  as the function reads it (trimmed and lower-cased), is not empty: rows with an empty
  email are passed over and nothing else is counted. It is not the number of contacts
  added, which is at most that number: when every email attempted is already in the
  store, the rows of the store are left as they were and the count is still the number of
  rows attempted.
\<close>

theorem bulk_import_count:
  "fst (bulk_import_contacts out series_str df (w, db))
     = length (filter (\<lambda>r. attempted_email series_str r \<noteq> []) (df_rows df))
   \<and> length (rows (contacts (snd (snd (bulk_import_contacts out series_str df (w, db))))))
       \<le> length (rows (contacts db)) + fst (bulk_import_contacts out series_str df (w, db))
   \<and> ((\<forall>r\<in>set (df_rows df). attempted_email series_str r = [] \<or>
          list_ex (\<lambda>c. c_email c = attempted_email series_str r) (rows (contacts db)))
       \<longrightarrow> rows (contacts (snd (snd (bulk_import_contacts out series_str df (w, db)))))
             = rows (contacts db))"
proof (intro conjI impI)
  show count: "fst (bulk_import_contacts out series_str df (w, db))
     = length (filter (\<lambda>r. attempted_email series_str r \<noteq> []) (df_rows df))"
    by (simp add: bulk_import_contacts_def bulk_import_loop_count)
  show "length (rows (contacts (snd (snd (bulk_import_contacts out series_str df (w, db))))))
       \<le> length (rows (contacts db)) + fst (bulk_import_contacts out series_str df (w, db))"
    unfolding count
    using bulk_import_loop_added[of out series_str "df_rows df" 0 "(w, db)"]
    by (simp add: bulk_import_contacts_def)
  show "rows (contacts (snd (snd (bulk_import_contacts out series_str df (w, db)))))
             = rows (contacts db)"
    if "\<forall>r\<in>set (df_rows df). attempted_email series_str r = [] \<or>
          list_ex (\<lambda>c. c_email c = attempted_email series_str r) (rows (contacts db))"
    unfolding bulk_import_contacts_def by (rule bulk_import_loop_present[OF that])
qed

theorem bulk_import_count_witness:
  "list_all (\<lambda>r. attempted_email (\<lambda>vs. []) r = [] \<or>
          list_ex (\<lambda>c. c_email c = attempted_email (\<lambda>vs. []) r) (rows (contacts one_contact_database)))
     (df_rows demo_frame)
   \<and> fst (bulk_import_contacts (demo_outside demo_server) (\<lambda>vs. []) demo_frame
            ([], one_contact_database)) = 2
   \<and> rows (contacts (snd (snd (bulk_import_contacts (demo_outside demo_server) (\<lambda>vs. []) demo_frame
            ([], one_contact_database))))) = rows (contacts one_contact_database)"
proof -
  have h: "list_all (\<lambda>r. attempted_email (\<lambda>vs. []) r = [] \<or>
          list_ex (\<lambda>c. c_email c = attempted_email (\<lambda>vs. []) r) (rows (contacts one_contact_database)))
     (df_rows demo_frame)"
    by code_simp
  have n: "length (filter (\<lambda>r. attempted_email (\<lambda>vs. []) r \<noteq> []) (df_rows demo_frame)) = 2"
    by code_simp
  note t = bulk_import_count[of "demo_outside demo_server" "\<lambda>vs. []" demo_frame "[]" one_contact_database]
  from t have "fst (bulk_import_contacts (demo_outside demo_server) (\<lambda>vs. []) demo_frame
            ([], one_contact_database)) = 2"
    using n by simp
  moreover from t h have "rows (contacts (snd (snd (bulk_import_contacts (demo_outside demo_server)
           (\<lambda>vs. []) demo_frame ([], one_contact_database))))) = rows (contacts one_contact_database)"
    by (simp add: list_all_iff)
  ultimately show ?thesis using h by (intro conjI)
qed

section \<open>The TXT path\<close>

lemma drop_duplicates_from_unseen:
  "k \<in> set (drop_duplicates_from seen rs) \<Longrightarrow> email_key k \<notin> set seen"
proof (induction rs arbitrary: seen)
  case Nil
  then show ?case by simp
next
  case (Cons a rs)
  show ?case
  proof (cases "email_key a \<in> set seen")
    case True
    with Cons.prems have "k \<in> set (drop_duplicates_from seen rs)" by simp
    then show ?thesis by (rule Cons.IH)
  next
    case False
    with Cons.prems have "k = a \<or> k \<in> set (drop_duplicates_from (email_key a # seen) rs)"
      by simp
    then show ?thesis
    proof
      assume "k = a"
      with False show ?thesis by simp
    next
      assume "k \<in> set (drop_duplicates_from (email_key a # seen) rs)"
      then have "email_key k \<notin> set (email_key a # seen)" by (rule Cons.IH)
      then show ?thesis by simp
    qed
  qed
qed

lemma drop_duplicates_from_subseq: "subseq (drop_duplicates_from seen rs) rs"
  by (induction rs arbitrary: seen) auto

lemma drop_duplicates_from_distinct:
  "distinct (map (email_key) (drop_duplicates_from seen rs))"
proof (induction rs arbitrary: seen)
  case Nil
  then show ?case by simp
next
  case (Cons r rs)
  show ?case
  proof (cases "email_key r \<in> set seen")
    case True
    then show ?thesis using Cons.IH by simp
  next
    case False
    have differ: "email_key k \<noteq> email_key r"
      if "k \<in> set (drop_duplicates_from (email_key r # seen) rs)" for k
      using drop_duplicates_from_unseen[OF that] by simp
    have "email_key r
        \<notin> email_key ` set (drop_duplicates_from (email_key r # seen) rs)"
    proof
      assume "email_key r \<in> email_key ` set (drop_duplicates_from (email_key r # seen) rs)"
      then obtain k where k: "k \<in> set (drop_duplicates_from (email_key r # seen) rs)"
        and same: "email_key r = email_key k"
        by (rule imageE)
      from differ[OF k] same show False by simp
    qed
    moreover have "distinct (map (email_key)
        (drop_duplicates_from (email_key r # seen) rs))"
      by (rule Cons.IH)
    ultimately show ?thesis using False by simp
  qed
qed

lemma drop_duplicates_from_covers:
  "r \<in> set rs \<Longrightarrow> email_key r \<notin> set seen \<Longrightarrow>
     \<exists>k\<in>set (drop_duplicates_from seen rs). email_key k = email_key r"
proof (induction rs arbitrary: seen)
  case Nil
  then show ?case by simp
next
  case (Cons a rs)
  show ?case
  proof (cases "email_key a \<in> set seen")
    case True
    with Cons.prems have "r \<in> set rs" by auto
    from Cons.IH[OF this Cons.prems(2)] True show ?thesis by simp
  next
    case False
    show ?thesis
    proof (cases "email_key r = email_key a")
      case True
      with False show ?thesis by simp
    next
      case differ: False
      with Cons.prems have "r \<in> set rs" "email_key r \<notin> set (email_key a # seen)"
        by auto
      from Cons.IH[OF this] False show ?thesis by simp
    qed
  qed
qed

lemma drop_duplicates_from_first:
  "k \<in> set (drop_duplicates_from seen rs) \<Longrightarrow>
     find (\<lambda>r. email_key r = email_key k) rs = Some k"
proof (induction rs arbitrary: seen)
  case Nil
  then show ?case by simp
next
  case (Cons a rs)
  show ?case
  proof (cases "email_key a \<in> set seen")
    case True
    with Cons.prems have k: "k \<in> set (drop_duplicates_from seen rs)" by simp
    then have "email_key k \<notin> set seen" by (rule drop_duplicates_from_unseen)
    with True have "email_key a \<noteq> email_key k" by auto
    with Cons.IH[OF k] show ?thesis by simp
  next
    case False
    with Cons.prems have "k = a \<or> k \<in> set (drop_duplicates_from (email_key a # seen) rs)"
      by simp
    then show ?thesis
    proof
      assume "k = a"
      then show ?thesis by simp
    next
      assume k: "k \<in> set (drop_duplicates_from (email_key a # seen) rs)"
      then have "email_key k \<notin> set (email_key a # seen)"
        by (rule drop_duplicates_from_unseen)
      then have "email_key a \<noteq> email_key k" by auto
      with Cons.IH[OF k] show ?thesis by simp
    qed
  qed
qed

lemma normalize_txt_rows:
  "df_rows (fst (normalize_txt text)) = drop_duplicates_from [] (txt_candidates text)"
proof (cases "txt_rows text = []")
  case True
  then show ?thesis
    by (simp add: normalize_txt_def DataFrame_def df_empty_def txt_candidates_def)
next
  case False
  then have ne: "\<not> df_empty (DataFrame (txt_rows text))"
    by (simp add: DataFrame_def df_empty_def)
  obtain df1 skipped where ve: "validate_emails (DataFrame (txt_rows text)) = (df1, skipped)"
    by (metis prod.exhaust)
  have v: "df_rows df1 = txt_candidates text"
    using False ve
    by (auto simp: validate_emails_def Let_def filter_rows_def map_column_def DataFrame_def
        txt_candidates_def)
  have c: "df_columns df1 \<noteq> []"
    using False ve
    by (auto simp: validate_emails_def Let_def filter_rows_def map_column_def DataFrame_def)
  show ?thesis
  proof (cases "txt_candidates text = []")
    case True
    with v have "df_empty df1" by (simp add: df_empty_def)
    with ne v True ve show ?thesis
      by (simp add: normalize_txt_def Let_def)
  next
    case False
    with v c have "\<not> df_empty df1" by (simp add: df_empty_def)
    with ne v ve show ?thesis
      by (simp add: normalize_txt_def Let_def drop_duplicates_def)
  qed
qed

lemma txt_candidates_valid: "r \<in> set (txt_candidates text) \<Longrightarrow> mask_valid r"
  by (simp add: txt_candidates_def)

text \<open>
  C5. On the TXT path the rows kept are rows of the validated candidates, in their order
  (file order); no two of them have the same email; every candidate's email is the email
  of a kept row; and each kept row is the first candidate with its email. The two lines
  \<open>a@x.com;A;t1\<close> and \<open>A@X.COM\<close> give the one row \<open>a@x.com\<close>, \<open>A\<close>, \<open>t1\<close>, and nothing
  is counted as skipped.
\<close>

theorem txt_import_keeps_first:
  "subseq (df_rows (fst (normalize_txt text))) (txt_candidates text)
   \<and> distinct (map (email_key) (df_rows (fst (normalize_txt text))))
   \<and> (\<forall>r\<in>set (txt_candidates text).
         \<exists>k\<in>set (df_rows (fst (normalize_txt text))). email_key k = email_key r)
   \<and> (\<forall>k\<in>set (df_rows (fst (normalize_txt text))).
         find (\<lambda>r. email_key r = email_key k) (txt_candidates text) = Some k)
   \<and> normalize_txt (''a@x.com;A;t1'' @ [CHR 0x0A] @ ''A@X.COM'')
       = (\<lparr>df_columns = [''email'', ''name'', ''tags''],
           df_rows = [[(''email'', ''a@x.com''), (''name'', ''A''), (''tags'', ''t1'')]]\<rparr>, 0)"
proof (intro conjI ballI)
  show "subseq (df_rows (fst (normalize_txt text))) (txt_candidates text)"
    unfolding normalize_txt_rows by (rule drop_duplicates_from_subseq)
  show "distinct (map (email_key) (df_rows (fst (normalize_txt text))))"
    unfolding normalize_txt_rows by (rule drop_duplicates_from_distinct)
  show "\<exists>k\<in>set (df_rows (fst (normalize_txt text))). email_key k = email_key r"
    if "r \<in> set (txt_candidates text)" for r
    unfolding normalize_txt_rows using drop_duplicates_from_covers[OF that, of "[]"] by simp
  show "find (\<lambda>r. email_key r = email_key k) (txt_candidates text) = Some k"
    if "k \<in> set (df_rows (fst (normalize_txt text)))" for k
    using that unfolding normalize_txt_rows by (rule drop_duplicates_from_first)
  show "normalize_txt (''a@x.com;A;t1'' @ [CHR 0x0A] @ ''A@X.COM'')
       = (\<lparr>df_columns = [''email'', ''name'', ''tags''],
           df_rows = [[(''email'', ''a@x.com''), (''name'', ''A''), (''tags'', ''t1'')]]\<rparr>, 0)"
    by code_simp
qed

theorem txt_import_keeps_first_witness:
  "txt_candidates (''a@x.com;A;t1'' @ [CHR 0x0A] @ ''A@X.COM, b@y.org'')
     = [[(''email'', ''a@x.com''), (''name'', ''A''), (''tags'', ''t1'')],
        [(''email'', ''a@x.com''), (''name'', []), (''tags'', [])],
        [(''email'', ''b@y.org''), (''name'', []), (''tags'', [])]]
   \<and> [(''email'', ''a@x.com''), (''name'', ''A''), (''tags'', ''t1'')]
       \<in> set (df_rows (fst (normalize_txt (''a@x.com;A;t1'' @ [CHR 0x0A] @ ''A@X.COM, b@y.org''))))
   \<and> find (\<lambda>r. email_key r
                 = email_key [(''email'', ''a@x.com''), (''name'', ''A''), (''tags'', ''t1'')])
        (txt_candidates (''a@x.com;A;t1'' @ [CHR 0x0A] @ ''A@X.COM, b@y.org''))
       = Some [(''email'', ''a@x.com''), (''name'', ''A''), (''tags'', ''t1'')]
   \<and> (\<exists>k\<in>set (df_rows (fst (normalize_txt (''a@x.com;A;t1'' @ [CHR 0x0A] @ ''A@X.COM, b@y.org'')))).
         email_key k = email_key [(''email'', ''a@x.com''), (''name'', []), (''tags'', [])])"
proof -
  let ?text = "''a@x.com;A;t1'' @ [CHR 0x0A] @ ''A@X.COM, b@y.org''"
  let ?k = "[(''email'', ''a@x.com''), (''name'', ''A''), (''tags'', ''t1'')]"
  let ?r = "[(''email'', ''a@x.com''), (''name'', []), (''tags'', [])]"
  have c: "txt_candidates ?text
     = [[(''email'', ''a@x.com''), (''name'', ''A''), (''tags'', ''t1'')],
        [(''email'', ''a@x.com''), (''name'', []), (''tags'', [])],
        [(''email'', ''b@y.org''), (''name'', []), (''tags'', [])]]"
    by code_simp
  have m: "?k \<in> set (df_rows (fst (normalize_txt ?text)))" by code_simp
  have r: "?r \<in> set (txt_candidates ?text)" unfolding c by simp
  note t = txt_import_keeps_first[of ?text]
  from t m
  have f: "find (\<lambda>r. email_key r = email_key ?k) (txt_candidates ?text) = Some ?k"
    by blast
  from t r
  have e: "\<exists>k\<in>set (df_rows (fst (normalize_txt ?text))). email_key k = email_key ?r"
    by blast
  from c m f e show ?thesis by (intro conjI)
qed

section \<open>The CSV path\<close>






















end
